theory Spec2Isabelle
  imports Main
begin

section \<open>Go strings and formatting\<close>

text \<open>
  A Go \<^verbatim>\<open>string\<close> is a sequence of bytes, and \<^verbatim>\<open>len\<close>, slicing and
  indexing count bytes.  It is modelled by \<^typ>\<open>string\<close>, a list of 8-bit
  characters; text beyond ASCII appears as its UTF-8 bytes.
\<close>

definition HasPrefix :: "string \<Rightarrow> string \<Rightarrow> bool" where
  \<comment> \<open>\<^verbatim>\<open>strings.HasPrefix(s, prefix)\<close>\<close>
  "HasPrefix s p = (length p \<le> length s \<and> take (length p) s = p)"

definition digit :: "nat \<Rightarrow> char" where
  "digit d = ''0123456789'' ! d"

function decimal :: "nat \<Rightarrow> string" where
  "decimal n = (if n < 10 then [digit n] else decimal (n div 10) @ [digit (n mod 10)])"
  by pat_completeness auto
termination
  by (relation "measure id") auto

declare decimal.simps [simp del]

definition itoa :: "int \<Rightarrow> string" where
  \<comment> \<open>the verb \<^verbatim>\<open>%d\<close> of \<^verbatim>\<open>fmt.Sprintf\<close> on an \<^verbatim>\<open>int\<close>\<close>
  "itoa i = (if i < 0 then CHR ''-'' # decimal (nat (- i)) else decimal (nat i))"

fun Split :: "string \<Rightarrow> char \<Rightarrow> string list" where
  \<comment> \<open>\<^verbatim>\<open>strings.Split(s, sep)\<close> for a separator of one byte: one piece more than
      there are separators, so the empty string gives one empty piece\<close>
  "Split [] c = [[]]"
| "Split (x # xs) c =
     (if x = c then [] # Split xs c
      else (case Split xs c of [] \<Rightarrow> [[x]] | piece # pieces \<Rightarrow> (x # piece) # pieces))"

fun strings_Join :: "string list \<Rightarrow> string \<Rightarrow> string" where
  \<comment> \<open>\<^verbatim>\<open>strings.Join(elems, sep)\<close>\<close>
  "strings_Join [] sep = []"
| "strings_Join [e] sep = e"
| "strings_Join (e # es) sep = e @ sep @ strings_Join es sep"

section \<open>Paths and files\<close>

text \<open>
  \<^verbatim>\<open>filepath.Clean\<close> and \<^verbatim>\<open>filepath.Join\<close> (Unix separator), from their
  documented rules: runs of separators collapse, \<^verbatim>\<open>.\<close> elements vanish, an inner
  \<^verbatim>\<open>..\<close> removes the element before it, a \<^verbatim>\<open>..\<close> at the root vanishes, and
  the empty result is \<^verbatim>\<open>.\<close>.
\<close>

definition clean_step :: "bool \<Rightarrow> string list \<Rightarrow> string \<Rightarrow> string list" where
  "clean_step rooted st c =
     (if c = [] \<or> c = ''.'' then st
      else if c = ''..'' then
        (if st \<noteq> [] \<and> last st \<noteq> ''..'' then butlast st
         else if rooted then st
         else st @ [c])
      else st @ [c])"

definition Clean :: "string \<Rightarrow> string" where
  "Clean p =
     (let rooted = (p \<noteq> [] \<and> hd p = CHR ''/'');
          st = foldl (clean_step rooted) [] (Split p CHR ''/'');
          out = (if rooted then ''/'' else []) @ strings_Join st ''/''
      in if out = [] then ''.'' else out)"

definition Join :: "string \<Rightarrow> string \<Rightarrow> string" where
  \<comment> \<open>\<^verbatim>\<open>filepath.Join(a, b)\<close>: empty elements are ignored, the rest is joined and cleaned\<close>
  "Join a b =
     (if a \<noteq> [] then Clean (a @ ''/'' @ b)
      else if b \<noteq> [] then Clean b
      else [])"

definition simple_name :: "string \<Rightarrow> bool" where
  \<comment> \<open>a file name that \<^const>\<open>Clean\<close> keeps as the last element of a path\<close>
  "simple_name n = (n \<noteq> [] \<and> CHR ''/'' \<notin> set n \<and> n \<noteq> ''.'' \<and> n \<noteq> ''..'')"

definition last_elem :: "string \<Rightarrow> string" where
  \<comment> \<open>what follows the last separator of a path\<close>
  "last_elem p = rev (takeWhile (\<lambda>c. c \<noteq> CHR ''/'') (rev p))"

text \<open>
  The part of the machine the orchestration core acts on: the files by path, the paths
  that cannot be written (a missing directory, a permission), and the lines printed to
  standard output.
\<close>

datatype out_line = Info string | Warn string

record world =
  files :: "string \<rightharpoonup> string"
  unwritable :: "string set"
  printed :: "out_line list"

datatype os_error = ErrNotExist | ErrDenied

definition ReadFile :: "string \<Rightarrow> world \<Rightarrow> os_error + string" where
  \<comment> \<open>\<^verbatim>\<open>os.ReadFile\<close>\<close>
  "ReadFile path w = (case files w path of None \<Rightarrow> Inl ErrNotExist | Some data \<Rightarrow> Inr data)"

definition WriteFile :: "string \<Rightarrow> string \<Rightarrow> world \<Rightarrow> os_error option \<times> world" where
  \<comment> \<open>\<^verbatim>\<open>os.WriteFile\<close>: creates or truncates the file and writes the data\<close>
  "WriteFile path data w =
     (if path \<in> unwritable w then (Some ErrDenied, w)
      else (None, w\<lparr>files := (files w)(path \<mapsto> data)\<rparr>))"

section \<open>The memory store (package memory)\<close>

definition fileProgress :: string where "fileProgress = ''PROGRESS.md''"
definition fileMemory :: string where "fileMemory = ''MEMORY.md''"
definition fileAgents :: string where "fileAgents = ''AGENTS.md''"
definition fileFeedback :: string where "fileFeedback = ''FEEDBACK.md''"

record Context =
  Progress :: string
  Memory :: string
  Agents :: string
  Feedback :: string

record IterationData =
  Iteration :: int
  Task :: string
  WorkerOutput :: string
  ReviewerNotes :: string
  Status :: string

datatype memory_error = CannotWrite string os_error

definition HasAny :: "Context \<Rightarrow> bool" where
  "HasAny c = (Progress c \<noteq> [] \<or> Memory c \<noteq> [] \<or> Agents c \<noteq> [] \<or> Feedback c \<noteq> [])"

definition readFile :: "string \<Rightarrow> world \<Rightarrow> string" where
  "readFile path w = (case ReadFile path w of Inl err \<Rightarrow> [] | Inr data \<Rightarrow> data)"

definition Load :: "string \<Rightarrow> world \<Rightarrow> Context" where
  "Load worktreePath w =
     \<lparr>Progress = readFile (Join worktreePath fileProgress) w,
      Memory = readFile (Join worktreePath fileMemory) w,
      Agents = readFile (Join worktreePath fileAgents) w,
      Feedback = readFile (Join worktreePath fileFeedback) w\<rparr>"

definition truncate_str :: "string \<Rightarrow> nat \<Rightarrow> string" where
  \<comment> \<open>\<^verbatim>\<open>maxLen\<close> is an \<^verbatim>\<open>int\<close> in the source; its only call site passes 4000.\<close>
  "truncate_str s maxLen =
     (if length s \<le> maxLen then s else take maxLen s @ ''\<newline>...[truncated]'')"

definition buildAgentsFile :: "IterationData \<Rightarrow> string" where
  "buildAgentsFile data =
     ''# Agent Learnings\<newline>\<newline>''
     @ ''Iteration '' @ itoa (Iteration data) @ '' completed with status: '' @ Status data
         @ ''\<newline>\<newline>''
     @ (if ReviewerNotes data \<noteq> []
        then ''## Key Feedback Points\<newline>\<newline>'' @ ReviewerNotes data @ ''\<newline>\<newline>''
        else [])
     @ ''## Instructions for Next Iteration\<newline>\<newline>''
     @ ''- Review FEEDBACK.md before starting work\<newline>''
     @ ''- Address all reviewer notes\<newline>''
     @ ''- Build on previous iteration's progress in MEMORY.md\<newline>''"

definition progress_blob :: "IterationData \<Rightarrow> string" where
  \<comment> \<open>the local \<^verbatim>\<open>progress\<close> of \<^verbatim>\<open>Write\<close>\<close>
  "progress_blob data =
     ''# Task Progress\<newline>\<newline>**Task:** '' @ Task data
     @ ''\<newline>\<newline>**Iteration:** '' @ itoa (Iteration data)
     @ ''\<newline>\<newline>**Status:** '' @ Status data @ ''\<newline>''"

definition mem_blob :: "IterationData \<Rightarrow> string" where
  \<comment> \<open>the local \<^verbatim>\<open>mem\<close> of \<^verbatim>\<open>Write\<close>\<close>
  "mem_blob data =
     ''# Worker Memory\<newline>\<newline>## Iteration '' @ itoa (Iteration data) @ '' Output\<newline>\<newline>''
     @ truncate_str (WorkerOutput data) 4000 @ ''\<newline>''"

definition feedback_blob :: "IterationData \<Rightarrow> string" where
  \<comment> \<open>the local \<^verbatim>\<open>feedback\<close> of \<^verbatim>\<open>Write\<close>\<close>
  "feedback_blob data =
     (if ReviewerNotes data \<noteq> []
      then ''# Reviewer Feedback\<newline>\<newline>## Iteration '' @ itoa (Iteration data)
           @ ''\<newline>\<newline>'' @ ReviewerNotes data @ ''\<newline>''
      else [])"

definition memory_files :: "IterationData \<Rightarrow> (string \<rightharpoonup> string)" where
  \<comment> \<open>the map \<^verbatim>\<open>files\<close> of \<^verbatim>\<open>Write\<close>\<close>
  "memory_files data =
     [fileProgress \<mapsto> progress_blob data,
      fileMemory \<mapsto> mem_blob data,
      fileAgents \<mapsto> buildAgentsFile data,
      fileFeedback \<mapsto> feedback_blob data]"

text \<open>
  Go ranges over a map in an order the runtime chooses.  The order is the parameter
  \<open>order\<close>, a list of the keys; the loop stops at the first write that fails.
\<close>

fun write_range :: "string \<Rightarrow> (string \<rightharpoonup> string) \<Rightarrow> string list \<Rightarrow> world
    \<Rightarrow> memory_error option \<times> world" where
  "write_range worktreePath m [] w = (None, w)"
| "write_range worktreePath m (name # rest) w =
     (case m name of
        None \<Rightarrow> write_range worktreePath m rest w
      | Some content \<Rightarrow>
          (case WriteFile (Join worktreePath name) content w of
             (Some err, w') \<Rightarrow> (Some (CannotWrite name err), w')
           | (None, w') \<Rightarrow> write_range worktreePath m rest w'))"

definition Write :: "string list \<Rightarrow> string \<Rightarrow> IterationData \<Rightarrow> world
    \<Rightarrow> memory_error option \<times> world" where
  "Write order worktreePath data w = write_range worktreePath (memory_files data) order w"

definition memory_file_names :: "string set" where
  "memory_file_names = {fileProgress, fileMemory, fileAgents, fileFeedback}"

section \<open>Runes and white space\<close>

text \<open>
  Go reads a string as UTF-8 where it looks at characters (\<^verbatim>\<open>range\<close>,
  \<^verbatim>\<open>strings.TrimSpace\<close>, the case mappings).  A rune is a code point, here a natural
  number.  \<^verbatim>\<open>utf8.DecodeRuneInString\<close> gives the first rune of a string and the
  number of bytes it takes; a byte that starts no valid encoding is the rune
  \<^verbatim>\<open>RuneError\<close> of width 1.  Encodings that are too long, surrogates and values
  beyond U+10FFFF are invalid, which the ranges for the second byte express.
\<close>

definition RuneError :: nat where
  "RuneError = 0xFFFD"

definition byte_in :: "char \<Rightarrow> nat \<Rightarrow> nat \<Rightarrow> bool" where
  "byte_in c lo hi = (lo \<le> of_char c \<and> of_char c \<le> (hi::nat))"

definition tail_len :: "nat \<Rightarrow> nat" where
  \<comment> \<open>the number of continuation bytes after a first byte; 0 for a byte that starts no
      encoding of several bytes\<close>
  "tail_len b0 =
     (if 0xC2 \<le> b0 \<and> b0 \<le> 0xDF then 1
      else if 0xE0 \<le> b0 \<and> b0 \<le> 0xEF then 2
      else if 0xF0 \<le> b0 \<and> b0 \<le> 0xF4 then 3
      else 0)"

definition second_lo :: "nat \<Rightarrow> nat" where
  "second_lo b0 = (if b0 = 0xE0 then 0xA0 else if b0 = 0xF0 then 0x90 else 0x80)"

definition second_hi :: "nat \<Rightarrow> nat" where
  "second_hi b0 = (if b0 = 0xED then 0x9F else if b0 = 0xF4 then 0x8F else 0xBF)"

definition rune_at :: "char \<Rightarrow> string \<Rightarrow> nat \<times> nat" where
  \<comment> \<open>the rune that starts with byte \<open>c\<close>, followed by \<open>rest\<close>, and the number of bytes
      of \<open>rest\<close> that belong to it\<close>
  "rune_at c rest =
     (let b0 = (of_char c :: nat);
          n = tail_len b0;
          tail = take n rest
      in if b0 < 0x80 then (b0, 0)
         else if 0 < n \<and> length tail = n
                 \<and> byte_in (hd tail) (second_lo b0) (second_hi b0)
                 \<and> list_all (\<lambda>x. byte_in x 0x80 0xBF) (tl tail)
         then (foldl (\<lambda>acc x. acc * 64 + of_char x mod 64) (b0 mod (64 div 2 ^ n)) tail, n)
         else (RuneError, 0))"

definition DecodeRune :: "string \<Rightarrow> nat \<times> nat" where
  \<comment> \<open>\<^verbatim>\<open>utf8.DecodeRuneInString\<close>: the rune and its width\<close>
  "DecodeRune s =
     (case s of [] \<Rightarrow> (RuneError, 0) | c # rest \<Rightarrow> (fst (rune_at c rest), Suc (snd (rune_at c rest))))"

fun runes :: "string \<Rightarrow> nat list" where
  \<comment> \<open>the runes a \<^verbatim>\<open>for _, r := range s\<close> loop sees\<close>
  "runes [] = []"
| "runes (c # rest) = fst (rune_at c rest) # runes (drop (snd (rune_at c rest)) rest)"

definition EncodeRune :: "nat \<Rightarrow> string" where
  \<comment> \<open>\<^verbatim>\<open>utf8.AppendRune\<close>, which \<^verbatim>\<open>strings.Builder.WriteRune\<close> uses: a surrogate or a
      value beyond U+10FFFF is written as \<^verbatim>\<open>RuneError\<close>\<close>
  "EncodeRune r =
     (if r \<le> 0x7F then [char_of r]
      else if r \<le> 0x7FF then [char_of (0xC0 + r div 64), char_of (0x80 + r mod 64)]
      else if 0x10FFFF < r \<or> (0xD800 \<le> r \<and> r \<le> 0xDFFF) then [CHR 0xEF, CHR 0xBF, CHR 0xBD]
      else if r \<le> 0xFFFF then
        [char_of (0xE0 + r div 4096), char_of (0x80 + (r div 64) mod 64), char_of (0x80 + r mod 64)]
      else
        [char_of (0xF0 + r div 262144), char_of (0x80 + (r div 4096) mod 64),
         char_of (0x80 + (r div 64) mod 64), char_of (0x80 + r mod 64)])"

definition IsSpace :: "nat \<Rightarrow> bool" where
  \<comment> \<open>\<^verbatim>\<open>unicode.IsSpace\<close>: the Latin-1 cases of its switch, and the rest of the table
      \<^verbatim>\<open>White_Space\<close>\<close>
  "IsSpace r =
     (if r \<le> 0xFF then r \<in> {0x09, 0x0A, 0x0B, 0x0C, 0x0D, 0x20, 0x85, 0xA0}
      else r = 0x1680 \<or> (0x2000 \<le> r \<and> r \<le> 0x200A) \<or> r = 0x2028 \<or> r = 0x2029
           \<or> r = 0x202F \<or> r = 0x205F \<or> r = 0x3000)"

fun TrimLeftSpace :: "string \<Rightarrow> string" where
  \<comment> \<open>\<^verbatim>\<open>strings.TrimLeftFunc(s, unicode.IsSpace)\<close>\<close>
  "TrimLeftSpace [] = []"
| "TrimLeftSpace (c # rest) =
     (if IsSpace (fst (rune_at c rest)) then TrimLeftSpace (drop (snd (rune_at c rest)) rest)
      else c # rest)"

definition RuneStart :: "char \<Rightarrow> bool" where
  \<comment> \<open>\<^verbatim>\<open>utf8.RuneStart\<close>: not a continuation byte\<close>
  "RuneStart c = (\<not> byte_in c 0x80 0xBF)"

function scan_back :: "string \<Rightarrow> int \<Rightarrow> int \<Rightarrow> int" where
  \<comment> \<open>the loop \<^verbatim>\<open>for start--; start >= lim; start--\<close> of \<^verbatim>\<open>DecodeLastRuneInString\<close>,
      entered after the first decrement\<close>
  "scan_back s start lim =
     (if lim \<le> start
      then (if RuneStart (s ! nat start) then start else scan_back s (start - 1) lim)
      else start)"
  by pat_completeness auto
termination
  by (relation "measure (\<lambda>(s, start, lim). nat (start - lim + 1))") auto

declare scan_back.simps [simp del]

definition DecodeLastRune :: "string \<Rightarrow> nat \<times> nat" where
  \<comment> \<open>\<^verbatim>\<open>utf8.DecodeLastRuneInString\<close>: the last rune and its width\<close>
  "DecodeLastRune s =
     (let end = length s in
      if end = 0 then (RuneError, 0)
      else if (of_char (last s) :: nat) < 0x80 then (of_char (last s), 1)
      else
        (let lim = max 0 (int end - 4);
             start = nat (max 0 (scan_back s (int end - 2) lim));
             (r, size) = DecodeRune (drop start s)
         in if start + size \<noteq> end then (RuneError, 1) else (r, size)))"

function TrimRightSpace :: "string \<Rightarrow> string" where
  \<comment> \<open>\<^verbatim>\<open>strings.TrimRightFunc(s, unicode.IsSpace)\<close>\<close>
  "TrimRightSpace s =
     (if s \<noteq> [] \<and> IsSpace (fst (DecodeLastRune s)) \<and> 0 < snd (DecodeLastRune s)
      then TrimRightSpace (take (length s - snd (DecodeLastRune s)) s)
      else s)"
  by pat_completeness auto
termination
  by (relation "measure length") auto

declare TrimRightSpace.simps [simp del]

definition TrimSpace :: "string \<Rightarrow> string" where
  \<comment> \<open>\<^verbatim>\<open>strings.TrimSpace\<close>: leading and trailing white space, as Unicode defines it,
      removed (its fast path for ASCII gives the same result)\<close>
  "TrimSpace s = TrimRightSpace (TrimLeftSpace s)"

definition asciiSpace :: "char \<Rightarrow> bool" where
  \<comment> \<open>the table \<^verbatim>\<open>asciiSpace\<close> of package strings: tab, newline, vertical tab, form
      feed, carriage return, space\<close>
  "asciiSpace c = ((of_char c :: nat) \<in> {0x09, 0x0A, 0x0B, 0x0C, 0x0D, 0x20})"

definition blank_byte :: "char \<Rightarrow> bool" where
  \<comment> \<open>a byte that can be part of white space: an ASCII white space character, or a
      byte of a longer encoding\<close>
  "blank_byte c = (asciiSpace c \<or> (0x80::nat) \<le> of_char c)"


section \<open>Letters, digits and case\<close>

text \<open>
  \<^verbatim>\<open>unicode.IsLetter\<close>, \<^verbatim>\<open>unicode.IsDigit\<close>, \<^verbatim>\<open>unicode.ToLower\<close> and
  \<^verbatim>\<open>unicode.ToUpper\<close> answer from code for the first code points (Latin-1 for the
  classes, ASCII for the case mappings) and from the tables of the Unicode database for
  the rest.  The tables are not part of the program: they are a parameter, and only
  the part the functions compute themselves is written out.
\<close>

record unicode =
  letter_table :: "nat \<Rightarrow> bool"
    \<comment> \<open>\<^verbatim>\<open>isExcludingLatin(Letter, r)\<close>, asked for runes above U+00FF\<close>
  digit_table :: "nat \<Rightarrow> bool"
    \<comment> \<open>\<^verbatim>\<open>isExcludingLatin(Digit, r)\<close>, asked for runes above U+00FF\<close>
  lower_table :: "nat \<Rightarrow> nat"
    \<comment> \<open>\<^verbatim>\<open>To(LowerCase, r)\<close>, asked for runes above U+007F\<close>
  upper_table :: "nat \<Rightarrow> nat"
    \<comment> \<open>\<^verbatim>\<open>To(UpperCase, r)\<close>, asked for runes above U+007F\<close>

definition latin1_letter :: "nat \<Rightarrow> bool" where
  \<comment> \<open>the entries of the table \<^verbatim>\<open>properties\<close> that have a letter bit\<close>
  "latin1_letter r =
     ((0x41 \<le> r \<and> r \<le> 0x5A) \<or> (0x61 \<le> r \<and> r \<le> 0x7A) \<or> r = 0xAA \<or> r = 0xB5 \<or> r = 0xBA
      \<or> (0xC0 \<le> r \<and> r \<le> 0xD6) \<or> (0xD8 \<le> r \<and> r \<le> 0xF6) \<or> (0xF8 \<le> r \<and> r \<le> 0xFF))"

definition IsLetter :: "unicode \<Rightarrow> nat \<Rightarrow> bool" where
  "IsLetter U r = (if r \<le> 0xFF then latin1_letter r else letter_table U r)"

definition IsDigit :: "unicode \<Rightarrow> nat \<Rightarrow> bool" where
  "IsDigit U r = (if r \<le> 0xFF then 0x30 \<le> r \<and> r \<le> 0x39 else digit_table U r)"

definition unicode_ToLower :: "unicode \<Rightarrow> nat \<Rightarrow> nat" where
  "unicode_ToLower U r =
     (if r \<le> 0x7F then (if 0x41 \<le> r \<and> r \<le> 0x5A then r + 32 else r) else lower_table U r)"

definition unicode_ToUpper :: "unicode \<Rightarrow> nat \<Rightarrow> nat" where
  "unicode_ToUpper U r =
     (if r \<le> 0x7F then (if 0x61 \<le> r \<and> r \<le> 0x7A then r - 32 else r) else upper_table U r)"

definition is_ascii :: "string \<Rightarrow> bool" where
  "is_ascii s = list_all (\<lambda>c. (of_char c :: nat) < 0x80) s"

definition strings_Map :: "(nat \<Rightarrow> nat) \<Rightarrow> string \<Rightarrow> string" where
  \<comment> \<open>\<^verbatim>\<open>strings.Map(mapping, s)\<close> for a mapping that drops no rune: every rune of the
      string, an invalid byte being \<^verbatim>\<open>RuneError\<close>, is mapped and written in UTF-8\<close>
  "strings_Map mapping s = concat (map (\<lambda>r. EncodeRune (mapping r)) (runes s))"

definition ToLower :: "unicode \<Rightarrow> string \<Rightarrow> string" where
  \<comment> \<open>\<^verbatim>\<open>strings.ToLower\<close>: bytewise on an ASCII string, by runes otherwise\<close>
  "ToLower U s =
     (if is_ascii s then map (\<lambda>c. char_of (unicode_ToLower U (of_char c))) s
      else strings_Map (unicode_ToLower U) s)"

definition ToUpper :: "unicode \<Rightarrow> string \<Rightarrow> string" where
  \<comment> \<open>\<^verbatim>\<open>strings.ToUpper\<close>: bytewise on an ASCII string, by runes otherwise\<close>
  "ToUpper U s =
     (if is_ascii s then map (\<lambda>c. char_of (unicode_ToUpper U (of_char c))) s
      else strings_Map (unicode_ToUpper U) s)"

definition latin1_tables :: unicode where
  \<comment> \<open>tables that agree with Unicode on Latin-1 and know nothing beyond: for examples
      whose runes are at most U+00FF\<close>
  "latin1_tables =
     \<lparr>letter_table = (\<lambda>r. False),
      digit_table = (\<lambda>r. False),
      lower_table = (\<lambda>r. if 0xC0 \<le> r \<and> r \<le> 0xDE \<and> r \<noteq> 0xD7 then r + 32 else r),
      upper_table = (\<lambda>r. if 0xE0 \<le> r \<and> r \<le> 0xFE \<and> r \<noteq> 0xF7 then r - 32
                         else if r = 0xFF then 0x178 else if r = 0xB5 then 0x39C else r)\<rparr>"


section \<open>The workspace manager (package worktree)\<close>

record Entry =
  Slug_Entry :: string
  Path :: string
  Branch :: string
  Status_Entry :: string

record Manager =
  BaseBranch :: string
  BranchPrefix :: string
  WorktreeDir :: string
  RepoRoot :: string

text \<open>
  The manager reaches \<^verbatim>\<open>git\<close> and the disk through commands.  What they answer is
  not the manager's code, so each command is a parameter: a function of the state
  \<open>'s\<close> of the repository and the disk.  A query returns its answer; a command that
  changes something returns the new state, with \<open>Some out\<close> when it failed with the
  combined output \<open>out\<close>.
\<close>

record 's scm =
  ref_exists :: "string \<Rightarrow> string \<Rightarrow> 's \<Rightarrow> bool"
    \<comment> \<open>\<^verbatim>\<open>git rev-parse --verify ref\<close> in a repository root exits with 0\<close>
  branch_list :: "string \<Rightarrow> string \<Rightarrow> 's \<Rightarrow> string"
    \<comment> \<open>the standard output of \<^verbatim>\<open>git branch --list branch\<close> in a repository root\<close>
  worktree_list :: "string \<Rightarrow> 's \<Rightarrow> string option"
    \<comment> \<open>the output of \<^verbatim>\<open>git worktree list --porcelain\<close>, \<open>None\<close> when it fails\<close>
  worktree_add :: "string \<Rightarrow> string \<Rightarrow> string \<Rightarrow> string \<Rightarrow> 's \<Rightarrow> string option \<times> 's"
    \<comment> \<open>\<^verbatim>\<open>git worktree add -b branch path base\<close> in a repository root\<close>
  worktree_remove :: "string \<Rightarrow> string \<Rightarrow> 's \<Rightarrow> string option \<times> 's"
    \<comment> \<open>\<^verbatim>\<open>git worktree remove --force path\<close> in a repository root\<close>
  branch_delete :: "string \<Rightarrow> 's \<Rightarrow> string option \<times> 's"
    \<comment> \<open>\<^verbatim>\<open>git branch -D branch\<close>\<close>
  worktree_prune :: "string \<Rightarrow> 's \<Rightarrow> string option \<times> 's"
    \<comment> \<open>\<^verbatim>\<open>git worktree prune\<close> in a repository root\<close>
  getwd :: "'s \<Rightarrow> string option"
    \<comment> \<open>\<^verbatim>\<open>os.Getwd\<close>\<close>
  eval_symlinks :: "string \<Rightarrow> 's \<Rightarrow> string option"
    \<comment> \<open>\<^verbatim>\<open>filepath.EvalSymlinks\<close>, \<open>None\<close> when it fails\<close>
  stat :: "string \<Rightarrow> 's \<Rightarrow> os_error option"
    \<comment> \<open>\<^verbatim>\<open>os.Stat\<close>: \<open>None\<close> when the path exists\<close>
  remove_all :: "string \<Rightarrow> 's \<Rightarrow> os_error option \<times> 's"
    \<comment> \<open>\<^verbatim>\<open>os.RemoveAll\<close>\<close>
  mkdir_all :: "string \<Rightarrow> 's \<Rightarrow> os_error option \<times> 's"
    \<comment> \<open>\<^verbatim>\<open>os.MkdirAll\<close>\<close>

text \<open>
  The manifest file \<^verbatim>\<open>.mochi_manifest.json\<close> holds a map from slug to entry.  Its
  JSON encoding is not modelled: the file is absent, unreadable, of no bytes, of bytes
  that do not parse, or it holds a manifest.
\<close>

datatype manifest_file =
  Missing | Unreadable | No_Bytes | Malformed | Holds "string \<rightharpoonup> Entry"

record 's wt_state =
  ext :: 's
  manifest :: manifest_file
  manifest_unwritable :: bool

datatype wt_error =
  BaseBranchMissing string
  | CannotRemoveDir string os_error
  | CannotCreateDir os_error
  | WorktreeAddFailed string string
  | WorktreePruneFailed string
  | WorktreeRemoveFailed string
  | NoEntry string
  | ManifestRead
  | ManifestParse
  | ManifestWrite

subsection \<open>Go library functions the manager uses\<close>

definition TrimPrefix :: "string \<Rightarrow> string \<Rightarrow> string" where
  \<comment> \<open>\<^verbatim>\<open>strings.TrimPrefix\<close>\<close>
  "TrimPrefix s p = (if HasPrefix s p then drop (length p) s else s)"

definition IsAbs :: "string \<Rightarrow> bool" where
  \<comment> \<open>\<^verbatim>\<open>filepath.IsAbs\<close> (Unix)\<close>
  "IsAbs p = HasPrefix p ''/''"

definition Abs :: "'s scm \<Rightarrow> string \<Rightarrow> 's \<Rightarrow> string option" where
  \<comment> \<open>\<^verbatim>\<open>filepath.Abs\<close>; \<open>None\<close> when the working directory cannot be read\<close>
  "Abs E path s =
     (if IsAbs path then Some (Clean path)
      else (case getwd E s of None \<Rightarrow> None | Some wd \<Rightarrow> Some (Join wd path)))"

subsection \<open>The manifest\<close>

definition loadManifest :: "'s wt_state \<Rightarrow> wt_error + (string \<rightharpoonup> Entry)" where
  "loadManifest st =
     (case manifest st of
        Missing \<Rightarrow> Inr Map.empty
      | Unreadable \<Rightarrow> Inl ManifestRead
      | No_Bytes \<Rightarrow> Inl ManifestParse
      | Malformed \<Rightarrow> Inl ManifestParse
      | Holds m \<Rightarrow> Inr m)"

definition read_for_update :: "'s wt_state \<Rightarrow> wt_error + (string \<rightharpoonup> Entry)" where
  \<comment> \<open>the common start of \<^verbatim>\<open>saveEntry\<close> and \<^verbatim>\<open>removeEntry\<close>: a missing file and a
      file of no bytes give the empty manifest\<close>
  "read_for_update st =
     (case manifest st of
        Missing \<Rightarrow> Inr Map.empty
      | Unreadable \<Rightarrow> Inl ManifestRead
      | No_Bytes \<Rightarrow> Inr Map.empty
      | Malformed \<Rightarrow> Inl ManifestParse
      | Holds m \<Rightarrow> Inr m)"

definition write_manifest :: "(string \<rightharpoonup> Entry) \<Rightarrow> 's wt_state \<Rightarrow> wt_error option \<times> 's wt_state" where
  \<comment> \<open>\<^verbatim>\<open>json.MarshalIndent\<close> and \<^verbatim>\<open>os.WriteFile(manifestFile, ...)\<close>\<close>
  "write_manifest m st =
     (if manifest_unwritable st then (Some ManifestWrite, st)
      else (None, st\<lparr>manifest := Holds m\<rparr>))"

definition saveEntry :: "Entry \<Rightarrow> 's wt_state \<Rightarrow> wt_error option \<times> 's wt_state" where
  "saveEntry entry st =
     (case read_for_update st of
        Inl err \<Rightarrow> (Some err, st)
      | Inr m \<Rightarrow> write_manifest (m(Slug_Entry entry \<mapsto> entry)) st)"

definition removeEntry :: "string \<Rightarrow> 's wt_state \<Rightarrow> wt_error option \<times> 's wt_state" where
  "removeEntry slug st =
     (case read_for_update st of
        Inl err \<Rightarrow> (Some err, st)
      | Inr m \<Rightarrow> write_manifest (m(slug := None)) st)"

definition GetEntry :: "string \<Rightarrow> 's wt_state \<Rightarrow> wt_error + Entry" where
  "GetEntry slug st =
     (case loadManifest st of
        Inl err \<Rightarrow> Inl err
      | Inr m \<Rightarrow> (case m slug of None \<Rightarrow> Inl (NoEntry slug) | Some e \<Rightarrow> Inr e))"

definition UpdateStatus :: "string \<Rightarrow> string \<Rightarrow> 's wt_state \<Rightarrow> wt_error option \<times> 's wt_state" where
  "UpdateStatus slug status st =
     (case GetEntry slug st of
        Inl err \<Rightarrow> (Some err, st)
      | Inr entry \<Rightarrow> saveEntry (entry\<lparr>Status_Entry := status\<rparr>) st)"

subsection \<open>Branches and worktrees\<close>

definition refExists :: "'s scm \<Rightarrow> string \<Rightarrow> string \<Rightarrow> 's \<Rightarrow> bool" where
  "refExists E repoRoot ref s = ref_exists E repoRoot ref s"

definition ensureBaseRefExists :: "'s scm \<Rightarrow> Manager \<Rightarrow> 's \<Rightarrow> wt_error option" where
  "ensureBaseRefExists E m s =
     (if refExists E (RepoRoot m) (BaseBranch m) s then None
      else Some (BaseBranchMissing (BaseBranch m)))"

definition branchExists :: "'s scm \<Rightarrow> string \<Rightarrow> string \<Rightarrow> 's \<Rightarrow> bool" where
  "branchExists E repoRoot branch s = (TrimSpace (branch_list E repoRoot branch s) \<noteq> [])"

function resolve_from :: "'s scm \<Rightarrow> string \<Rightarrow> string \<Rightarrow> int \<Rightarrow> 's \<Rightarrow> string" where
  \<comment> \<open>the loop \<^verbatim>\<open>for i := 2; i < 100; i++\<close> of \<^verbatim>\<open>resolveBranch\<close>, from \<open>i\<close> on\<close>
  "resolve_from E repoRoot branch i s =
     (if i < 100 then
        (let candidate = branch @ ''-'' @ itoa i in
         if \<not> branchExists E repoRoot candidate s then candidate
         else resolve_from E repoRoot branch (i + 1) s)
      else branch)"
  by pat_completeness auto
termination
  by (relation "measure (\<lambda>(E, repoRoot, branch, i, s). nat (100 - i))") auto

declare resolve_from.simps [simp del]

definition resolveBranch :: "'s scm \<Rightarrow> Manager \<Rightarrow> string \<Rightarrow> 's \<Rightarrow> string" where
  "resolveBranch E m branch s =
     (if \<not> branchExists E (RepoRoot m) branch s then branch
      else resolve_from E (RepoRoot m) branch 2 s)"

definition real_or_same :: "'s scm \<Rightarrow> string \<Rightarrow> 's \<Rightarrow> string" where
  \<comment> \<open>\<^verbatim>\<open>filepath.EvalSymlinks\<close>, keeping the path when it fails\<close>
  "real_or_same E path s = (case eval_symlinks E path s of None \<Rightarrow> path | Some p \<Rightarrow> p)"

definition is_worktree_line :: "'s scm \<Rightarrow> string \<Rightarrow> 's \<Rightarrow> string \<Rightarrow> bool" where
  \<comment> \<open>a line \<^verbatim>\<open>worktree <path>\<close> of the porcelain output that names \<open>absPath\<close>\<close>
  "is_worktree_line E absPath s line =
     (HasPrefix line ''worktree ''
      \<and> real_or_same E (TrimPrefix line ''worktree '') s = absPath)"

definition isWorktree :: "'s scm \<Rightarrow> string \<Rightarrow> string \<Rightarrow> 's \<Rightarrow> bool" where
  "isWorktree E repoRoot path s =
     (case Abs E path s of
        None \<Rightarrow> False
      | Some absPath \<Rightarrow>
          (case worktree_list E repoRoot s of
             None \<Rightarrow> False
           | Some out \<Rightarrow>
               list_ex (is_worktree_line E (real_or_same E absPath s) s)
                 (Split out CHR ''\<newline>'')))"

fun branch_scan :: "'s scm \<Rightarrow> string \<Rightarrow> 's \<Rightarrow> bool \<Rightarrow> string list \<Rightarrow> string" where
  \<comment> \<open>the loop of \<^verbatim>\<open>getWorktreeBranch\<close> over the lines, with its flag \<^verbatim>\<open>found\<close>\<close>
  "branch_scan E absPath s found [] = []"
| "branch_scan E absPath s found (line # rest) =
     (if is_worktree_line E absPath s line then branch_scan E absPath s True rest
      else if found \<and> HasPrefix line ''branch '' then TrimPrefix line ''branch refs/heads/''
      else if found \<and> line = [] then []
      else branch_scan E absPath s found rest)"

definition getWorktreeBranch :: "'s scm \<Rightarrow> string \<Rightarrow> string \<Rightarrow> 's \<Rightarrow> string" where
  "getWorktreeBranch E repoRoot path s =
     (case Abs E path s of
        None \<Rightarrow> []
      | Some absPath \<Rightarrow>
          (case worktree_list E repoRoot s of
             None \<Rightarrow> []
           | Some out \<Rightarrow>
               branch_scan E (real_or_same E absPath s) s False (Split out CHR ''\<newline>'')))"

definition worktree_path :: "'s scm \<Rightarrow> Manager \<Rightarrow> string \<Rightarrow> 's \<Rightarrow> string" where
  \<comment> \<open>\<^verbatim>\<open>path, _ := filepath.Abs(filepath.Join(m.WorktreeDir, slug))\<close>: the error is
      dropped, and the path is then empty\<close>
  "worktree_path E m slug s =
     (case Abs E (Join (WorktreeDir m) slug) s of None \<Rightarrow> [] | Some p \<Rightarrow> p)"

definition pending_entry :: "string \<Rightarrow> string \<Rightarrow> string \<Rightarrow> Entry" where
  "pending_entry slug path branch =
     \<lparr>Slug_Entry = slug, Path = path, Branch = branch, Status_Entry = ''pending''\<rparr>"

definition save_and_return :: "Entry \<Rightarrow> 's wt_state \<Rightarrow> (wt_error + Entry) \<times> 's wt_state" where
  \<comment> \<open>\<^verbatim>\<open>if err := m.saveEntry(entry); err != nil { return nil, err }; return entry, nil\<close>\<close>
  "save_and_return entry st =
     (case saveEntry entry st of
        (Some err, st') \<Rightarrow> (Inl err, st')
      | (None, st') \<Rightarrow> (Inr entry, st'))"

definition create_new :: "'s scm \<Rightarrow> Manager \<Rightarrow> string \<Rightarrow> string \<Rightarrow> 's wt_state
    \<Rightarrow> (wt_error + Entry) \<times> 's wt_state" where
  \<comment> \<open>\<^verbatim>\<open>Create\<close> from its step 3 on: decide the branch name, add the worktree, save the
      entry\<close>
  "create_new E m slug path st =
     (let branch = resolveBranch E m (BranchPrefix m @ ''/'' @ slug) (ext st) in
      case worktree_add E (RepoRoot m) branch path (BaseBranch m) (ext st) of
        (Some out, s') \<Rightarrow> (Inl (WorktreeAddFailed slug out), st\<lparr>ext := s'\<rparr>)
      | (None, s') \<Rightarrow> save_and_return (pending_entry slug path branch) (st\<lparr>ext := s'\<rparr>))"

definition clear_path :: "'s scm \<Rightarrow> Manager \<Rightarrow> string \<Rightarrow> 's \<Rightarrow> wt_error option \<times> 's" where
  \<comment> \<open>\<^verbatim>\<open>Create\<close>, step 2: a directory that is no worktree is removed, and the worktree
      directory is made\<close>
  "clear_path E m path s =
     (case (if stat E path s = None then remove_all E path s else (None, s)) of
        (Some err, s') \<Rightarrow> (Some (CannotRemoveDir path err), s')
      | (None, s') \<Rightarrow>
          (case mkdir_all E (WorktreeDir m) s' of
             (Some err, s'') \<Rightarrow> (Some (CannotCreateDir err), s'')
           | (None, s'') \<Rightarrow> (None, s'')))"

definition reusable :: "'s scm \<Rightarrow> Manager \<Rightarrow> string \<Rightarrow> 's \<Rightarrow> bool" where
  \<comment> \<open>\<^verbatim>\<open>Create\<close>, step 1: the path is a worktree already, and its branch is known\<close>
  "reusable E m path s =
     (isWorktree E (RepoRoot m) path s \<and> getWorktreeBranch E (RepoRoot m) path s \<noteq> [])"

definition Create :: "'s scm \<Rightarrow> Manager \<Rightarrow> string \<Rightarrow> 's wt_state
    \<Rightarrow> (wt_error + Entry) \<times> 's wt_state" where
  "Create E m slug st =
     (case ensureBaseRefExists E m (ext st) of
        Some err \<Rightarrow> (Inl err, st)
      | None \<Rightarrow>
          (let path = worktree_path E m slug (ext st) in
           if reusable E m path (ext st)
           then save_and_return
                  (pending_entry slug path (getWorktreeBranch E (RepoRoot m) path (ext st))) st
           else
             (case clear_path E m path (ext st) of
                (Some err, s') \<Rightarrow> (Inl err, st\<lparr>ext := s'\<rparr>)
              | (None, s') \<Rightarrow> create_new E m slug path (st\<lparr>ext := s'\<rparr>))))"

definition Destroy :: "'s scm \<Rightarrow> Manager \<Rightarrow> string \<Rightarrow> 's wt_state
    \<Rightarrow> wt_error option \<times> 's wt_state" where
  "Destroy E m slug st =
     (case GetEntry slug st of
        Inl err \<Rightarrow> (Some err, st)
      | Inr entry \<Rightarrow>
          (case worktree_remove E (RepoRoot m) (Path entry) (ext st) of
             (Some out, s') \<Rightarrow> (Some (WorktreeRemoveFailed out), st\<lparr>ext := s'\<rparr>)
           | (None, s') \<Rightarrow>
               removeEntry slug (st\<lparr>ext := snd (branch_delete E (Branch entry) s')\<rparr>)))"


subsection \<open>A small repository, for examples\<close>

text \<open>
  An instance of the commands: a repository in memory, with its branches, its
  registered worktrees (path and branch) and the directories on disk.  The examples
  below run the manager on it.
\<close>

record toy_repo =
  toy_branches :: "string list"
  toy_worktrees :: "(string \<times> string) list"
  toy_dirs :: "string list"

definition toy_porcelain :: "(string \<times> string) list \<Rightarrow> string" where
  "toy_porcelain wts =
     concat (map (\<lambda>(p, b). ''worktree '' @ p @ ''\<newline>HEAD 0000\<newline>branch refs/heads/'' @ b
                              @ ''\<newline>\<newline>'') wts)"

definition toy_scm :: "toy_repo scm" where
  "toy_scm =
     \<lparr>ref_exists = (\<lambda>root ref s. ref \<in> set (toy_branches s)),
      branch_list = (\<lambda>root b s. if b \<in> set (toy_branches s) then ''  '' @ b @ ''\<newline>'' else []),
      worktree_list = (\<lambda>root s. Some (toy_porcelain (toy_worktrees s))),
      worktree_add = (\<lambda>root branch path base s.
         if branch \<in> set (toy_branches s) then (Some ''fatal: a branch of that name already exists'', s)
         else if base \<notin> set (toy_branches s) then (Some ''fatal: invalid reference'', s)
         else (None, s\<lparr>toy_branches := branch # toy_branches s,
                         toy_worktrees := (path, branch) # toy_worktrees s,
                         toy_dirs := path # toy_dirs s\<rparr>)),
      worktree_remove = (\<lambda>root path s.
         if path \<in> fst ` set (toy_worktrees s)
         then (None, s\<lparr>toy_worktrees := filter (\<lambda>(p, b). p \<noteq> path) (toy_worktrees s),
                         toy_dirs := removeAll path (toy_dirs s)\<rparr>)
         else (Some ''fatal: not a working tree'', s)),
      branch_delete = (\<lambda>b s.
         if b \<in> set (toy_branches s) then (None, s\<lparr>toy_branches := removeAll b (toy_branches s)\<rparr>)
         else (Some ''error: branch not found'', s)),
      worktree_prune = (\<lambda>root s. (None, s)),
      getwd = (\<lambda>s. Some ''/repo''),
      eval_symlinks = (\<lambda>p s. if p \<in> set (toy_dirs s) then Some p else None),
      stat = (\<lambda>p s. if p \<in> set (toy_dirs s) then None else Some ErrNotExist),
      remove_all = (\<lambda>p s. (None, s\<lparr>toy_dirs := removeAll p (toy_dirs s)\<rparr>)),
      mkdir_all = (\<lambda>p s. (None, s\<lparr>toy_dirs := p # toy_dirs s\<rparr>))\<rparr>"

definition toy_manager :: Manager where
  \<comment> \<open>the manager of the package's tests, in the repository \<^verbatim>\<open>/repo\<close>\<close>
  "toy_manager =
     \<lparr>BaseBranch = ''main'', BranchPrefix = ''feature'', WorktreeDir = ''/repo/.worktrees'',
      RepoRoot = ''/repo''\<rparr>"

definition toy_start :: "toy_repo wt_state" where
  \<comment> \<open>the branches \<^verbatim>\<open>feature/t\<close> and \<^verbatim>\<open>feature/t-2\<close> exist, no worktree does\<close>
  "toy_start =
     \<lparr>ext = \<lparr>toy_branches = [''main'', ''feature/t'', ''feature/t-2''], toy_worktrees = [],
             toy_dirs = [''/repo'']\<rparr>,
      manifest = Missing, manifest_unwritable = False\<rparr>"

definition toy_entry :: Entry where
  "toy_entry =
     \<lparr>Slug_Entry = ''t'', Path = ''/repo/.worktrees/t'', Branch = ''feature/t'',
      Status_Entry = ''done''\<rparr>"

definition toy_tracked :: "toy_repo wt_state" where
  \<comment> \<open>the workspace of the slug \<^verbatim>\<open>t\<close> exists and the manifest tracks it\<close>
  "toy_tracked =
     \<lparr>ext = \<lparr>toy_branches = [''main'', ''feature/t''],
             toy_worktrees = [(''/repo/.worktrees/t'', ''feature/t'')],
             toy_dirs = [''/repo/.worktrees/t'', ''/repo/.worktrees'', ''/repo'']\<rparr>,
      manifest = Holds [''t'' \<mapsto> toy_entry], manifest_unwritable = False\<rparr>"

definition toy_gone :: "toy_repo wt_state" where
  \<comment> \<open>the manifest tracks the slug \<^verbatim>\<open>t\<close>, but its workspace is gone from the repository\<close>
  "toy_gone =
     \<lparr>ext = \<lparr>toy_branches = [''main'', ''feature/t''], toy_worktrees = [],
             toy_dirs = [''/repo/.worktrees'', ''/repo'']\<rparr>,
      manifest = Holds [''t'' \<mapsto> toy_entry], manifest_unwritable = False\<rparr>"


section \<open>Tasks, agents and reviewers as the refinement loop sees them\<close>

record Task =
  Title :: string
  Description :: string
  Slug :: string
  Model :: string

record Decision =
  Done :: bool
  Feedback_Decision :: string
  Raw :: string

record Options =
  WorktreePath :: string
  Task_Options :: string
  Model_Options :: string
  WorkerOutput_Options :: string
  Iteration_Options :: int
  MaxIter :: int
  Timeout :: int
  Verbose :: bool
  LogDir :: string

record InvokeOptions =
  WorktreePath_Invoke :: string
  Task_Invoke :: string
  Model_Invoke :: string
  Timeout_Invoke :: int
  LogDir_Invoke :: string
  Verbose_Invoke :: bool
  Iteration_Invoke :: int
  MaxIterations :: int
  MemoryContext :: Context

record Result =
  Slug_Result :: string
  Success :: bool
  Duration :: int
  LogPath :: string
  Error :: "string option"
  Output :: string

record Config =
  InputFile :: string
  IssueNumber :: int
  Model_Config :: string
  Timeout_Config :: int
  Sequential :: bool
  TaskFilter :: string
  DryRun :: bool
  Verbose_Config :: bool
  KeepWorktrees :: bool
  CreatePRs :: bool
  PromptModel :: bool
  MaxWorktrees :: int
  BaseBranch_Config :: string
  BranchPrefix_Config :: string
  WorktreeDir_Config :: string
  LogDir_Config :: string
  ReviewerModel :: string
  MaxIterations_Config :: int
  OutputMode :: string
  OutputDir :: string
  Workspace :: string

record LoopResult =
  FinalWorkerResult :: Result
  Iterations :: int
  FinalMemory :: Context

text \<open>
  The worker and the reviewer are external processes.  What \<^verbatim>\<open>agent.Invoke\<close> and
  \<^verbatim>\<open>reviewer.Review\<close> return, and what the processes do to the files meanwhile, is a
  parameter of the loop: a function of the options and of the world.  \<open>Review\<close> returns
  its decision and its error.  The third parameter is the order in which the Go runtime
  ranges over the map of memory files in the iteration of that number.
\<close>

record actors =
  Invoke :: "InvokeOptions \<Rightarrow> string \<Rightarrow> world \<Rightarrow> Result \<times> world"
  Review :: "Options \<Rightarrow> world \<Rightarrow> (Decision \<times> string option) \<times> world"
  range_order :: "int \<Rightarrow> string list"

section \<open>The refinement loop (package orchestrator)\<close>

definition printInfo :: "string \<Rightarrow> world \<Rightarrow> world" where
  "printInfo s w = w\<lparr>printed := printed w @ [Info s]\<rparr>"

definition printWarn :: "string \<Rightarrow> world \<Rightarrow> world" where
  "printWarn s w = w\<lparr>printed := printed w @ [Warn s]\<rparr>"

definition loopEnabled :: "Config \<Rightarrow> bool" where
  "loopEnabled cfg = (ReviewerModel cfg \<noteq> [] \<or> 1 < MaxIterations_Config cfg)"

definition fullTaskContext :: "Task \<Rightarrow> string" where
  "fullTaskContext task =
     (if Description task \<noteq> [] then Title task @ ''\<newline>\<newline>'' @ Description task
      else Title task)"

definition invoke_options :: "Config \<Rightarrow> Task \<Rightarrow> Entry \<Rightarrow> int \<Rightarrow> int \<Rightarrow> Context \<Rightarrow> InvokeOptions" where
  \<comment> \<open>the options the loop passes to \<^verbatim>\<open>agent.Invoke\<close> in iteration \<open>iter\<close>\<close>
  "invoke_options cfg task entry iter maxIter memCtx =
     \<lparr>WorktreePath_Invoke = Path entry,
      Task_Invoke = fullTaskContext task,
      Model_Invoke = Model task,
      Timeout_Invoke = Timeout_Config cfg,
      LogDir_Invoke = LogDir_Config cfg,
      Verbose_Invoke = Verbose_Config cfg,
      Iteration_Invoke = iter,
      MaxIterations = maxIter,
      MemoryContext = memCtx\<rparr>"

definition review_options :: "Config \<Rightarrow> Task \<Rightarrow> Entry \<Rightarrow> int \<Rightarrow> int \<Rightarrow> Result \<Rightarrow> Options" where
  \<comment> \<open>the options the loop passes to \<^verbatim>\<open>reviewer.Review\<close> in iteration \<open>iter\<close>\<close>
  "review_options cfg task entry iter maxIter result =
     \<lparr>WorktreePath = Path entry,
      Task_Options = fullTaskContext task,
      Model_Options = ReviewerModel cfg,
      WorkerOutput_Options = Output result,
      Iteration_Options = iter,
      MaxIter = maxIter,
      Timeout = Timeout_Config cfg,
      Verbose = Verbose_Config cfg,
      LogDir = LogDir_Config cfg\<rparr>"

definition run_reviewer :: "actors \<Rightarrow> Config \<Rightarrow> Task \<Rightarrow> Entry \<Rightarrow> int \<Rightarrow> int \<Rightarrow> Result \<Rightarrow> world
    \<Rightarrow> (string \<times> bool) \<times> world" where
  \<comment> \<open>the reviewer step of an iteration: the values of \<^verbatim>\<open>reviewerNotes\<close> and \<^verbatim>\<open>done\<close>
      after it\<close>
  "run_reviewer X cfg task entry iter maxIter result w =
     (if ReviewerModel cfg \<noteq> [] \<and> Success result then
        (case Review X (review_options cfg task entry iter maxIter result) w of
           ((decision, Some err), w') \<Rightarrow>
             (([], False),
              printWarn (''reviewer error for '' @ Slug task @ '' iter '' @ itoa iter @ '': '' @ err) w')
         | ((decision, None), w') \<Rightarrow> ((Feedback_Decision decision, Done decision), w'))
      else (([], False), w))"

definition iteration :: "actors \<Rightarrow> Config \<Rightarrow> Task \<Rightarrow> Entry \<Rightarrow> int \<Rightarrow> int \<Rightarrow> world
    \<Rightarrow> (bool \<times> LoopResult) \<times> world" where
  \<comment> \<open>the body of the loop of \<^verbatim>\<open>runRalphLoop\<close>: whether it ends with \<^verbatim>\<open>done\<close>, and the
      values of \<^verbatim>\<open>lastResult\<close>, \<^verbatim>\<open>iterations\<close> and \<^verbatim>\<open>lastMemCtx\<close> after it\<close>
  "iteration X cfg task entry maxIter iter w =
     (let memCtx = Load (Path entry) w;
          w1 = (if Verbose_Config cfg \<and> loopEnabled cfg
                then printInfo (''  [loop] '' @ Slug task @ '' iteration '' @ itoa iter @ ''/''
                                @ itoa maxIter) w
                else w);
          (result, w2) = Invoke X (invoke_options cfg task entry iter maxIter memCtx) (Slug task) w1;
          status0 = (if \<not> Success result then ''failed'' else ''in-progress'');
          ((reviewerNotes, done0), w3) = run_reviewer X cfg task entry iter maxIter result w2;
          done1 = (if Success result \<and> ReviewerModel cfg = [] then True else done0);
          done = (if \<not> Success result then True else done1);
          status = (if (done \<or> iter = maxIter) \<and> done \<and> Success result then ''done'' else status0);
          (err, w4) = Write (range_order X iter) (Path entry)
                        \<lparr>Iteration = iter, Task = fullTaskContext task, WorkerOutput = Output result,
                         ReviewerNotes = reviewerNotes, Status = status\<rparr> w3
      in ((done, \<lparr>FinalWorkerResult = result, Iterations = iter,
                  FinalMemory = Load (Path entry) w4\<rparr>), w4))"

text \<open>
  Go's \<^verbatim>\<open>int\<close> has 64 bits on the platforms the program is built for, and its
  arithmetic wraps around silently.  The integers of the configuration are modelled as
  \<^typ>\<open>int\<close>; where the loop counts, the wrap-around is written out.
\<close>

definition int_max :: int where
  \<comment> \<open>\<^verbatim>\<open>math.MaxInt\<close>\<close>
  "int_max = 9223372036854775807"

definition int_wrap :: "int \<Rightarrow> int" where
  \<comment> \<open>the value an \<^verbatim>\<open>int\<close> variable holds when the exact result of an operation is \<open>k\<close>\<close>
  "int_wrap k = signed_take_bit 63 k"

text \<open>
  The loop \<^verbatim>\<open>for iter := 1; iter <= maxIter; iter++\<close>, with the variables
  \<^verbatim>\<open>lastResult\<close>, \<^verbatim>\<open>iterations\<close> and \<^verbatim>\<open>lastMemCtx\<close> as \<open>vars\<close>.  Nothing in the source
  bounds it besides the test and the \<^verbatim>\<open>break\<close>, so it is a partial function: \<open>None\<close> is
  the loop that never returns.
\<close>

partial_function (option) ralph_for :: "actors \<Rightarrow> Config \<Rightarrow> Task \<Rightarrow> Entry \<Rightarrow> int \<Rightarrow> int \<Rightarrow> LoopResult
    \<Rightarrow> world \<Rightarrow> (LoopResult \<times> world) option" where
  "ralph_for X cfg task entry maxIter iter vars w =
     (if iter \<le> maxIter then
        (case iteration X cfg task entry maxIter iter w of
           ((done, vars'), w') \<Rightarrow>
             if done then Some (vars', w')
             else ralph_for X cfg task entry maxIter (int_wrap (iter + 1)) vars' w')
      else Some (vars, w))"

definition zero_Result :: Result where
  \<comment> \<open>the zero value of \<^verbatim>\<open>agent.Result\<close>\<close>
  "zero_Result =
     \<lparr>Slug_Result = [], Success = False, Duration = 0, LogPath = [], Error = None, Output = []\<rparr>"

definition zero_LoopResult :: LoopResult where
  \<comment> \<open>\<^verbatim>\<open>lastResult\<close>, \<^verbatim>\<open>iterations\<close> and \<^verbatim>\<open>lastMemCtx\<close> before the loop\<close>
  "zero_LoopResult =
     \<lparr>FinalWorkerResult = zero_Result, Iterations = 0,
      FinalMemory = \<lparr>Progress = [], Memory = [], Agents = [], Feedback = []\<rparr>\<rparr>"

definition effective_max :: "Config \<Rightarrow> int" where
  \<comment> \<open>\<^verbatim>\<open>maxIter\<close>: the configured maximum, or 1 when that is below 1\<close>
  "effective_max cfg = (if MaxIterations_Config cfg < 1 then 1 else MaxIterations_Config cfg)"

definition runRalphLoop :: "actors \<Rightarrow> Config \<Rightarrow> Task \<Rightarrow> Entry \<Rightarrow> world
    \<Rightarrow> (LoopResult \<times> world) option" where
  "runRalphLoop X cfg task entry w =
     ralph_for X cfg task entry (effective_max cfg) 1 zero_LoopResult w"

definition Default :: Config where
  \<comment> \<open>\<^verbatim>\<open>config.Default()\<close>, with \<^verbatim>\<open>MOCHI_MODEL\<close> unset\<close>
  "Default =
     \<lparr>InputFile = ''PRD.md'', IssueNumber = 0, Model_Config = ''claude-sonnet-4-6'',
      Timeout_Config = 300000000, Sequential = False, TaskFilter = [], DryRun = False,
      Verbose_Config = False, KeepWorktrees = False, CreatePRs = False, PromptModel = False,
      MaxWorktrees = 0, BaseBranch_Config = ''main'', BranchPrefix_Config = ''feature'',
      WorktreeDir_Config = ''.worktrees'', LogDir_Config = ''logs'', ReviewerModel = [],
      MaxIterations_Config = 1, OutputMode = ''pr'', OutputDir = ''output'', Workspace = []\<rparr>"

subsection \<open>A worker that succeeds at once, for examples\<close>

definition quiet_actors :: actors where
  \<comment> \<open>the worker succeeds and touches no file; the reviewer is done\<close>
  "quiet_actors =
     \<lparr>Invoke = (\<lambda>opts slug w.
        (\<lparr>Slug_Result = slug, Success = True, Duration = 1,
          LogPath = LogDir_Invoke opts @ ''/'' @ slug @ ''.log'', Error = None,
          Output = ''finished''\<rparr>, w)),
      Review = (\<lambda>opts w. ((\<lparr>Done = True, Feedback_Decision = [], Raw = ''DONE''\<rparr>, None), w)),
      range_order = (\<lambda>iter. [fileAgents, fileFeedback, fileMemory, fileProgress])\<rparr>"

definition sample_task :: Task where
  "sample_task = \<lparr>Title = ''Add auth'', Description = [], Slug = ''add-auth'', Model = ''claude-opus-4-6''\<rparr>"

definition sample_entry :: Entry where
  "sample_entry =
     \<lparr>Slug_Entry = ''add-auth'', Path = ''/repo/.worktrees/add-auth'', Branch = ''feature/add-auth'',
      Status_Entry = ''running''\<rparr>"

definition empty_world :: world where
  "empty_world = \<lparr>files = Map.empty, unwritable = {}, printed = []\<rparr>"

subsection \<open>A reviewer that is never satisfied, for examples\<close>

definition retry_actors :: actors where
  \<comment> \<open>the worker succeeds and touches no file; the reviewer asks for another round\<close>
  "retry_actors =
     \<lparr>Invoke = (\<lambda>opts slug w.
        (\<lparr>Slug_Result = slug, Success = True, Duration = 1,
          LogPath = LogDir_Invoke opts @ ''/'' @ slug @ ''.log'', Error = None,
          Output = ''finished''\<rparr>, w)),
      Review = (\<lambda>opts w.
        ((\<lparr>Done = False, Feedback_Decision = ''add tests'', Raw = ''RETRY: add tests''\<rparr>, None), w)),
      range_order = (\<lambda>iter. [fileAgents, fileFeedback, fileMemory, fileProgress])\<rparr>"

definition patient_config :: Config where
  \<comment> \<open>\<^verbatim>\<open>--reviewer-model claude-opus-4-6 --max-iterations 9223372036854775807\<close>\<close>
  "patient_config =
     Default\<lparr>ReviewerModel := ''claude-opus-4-6'', MaxIterations_Config := 9223372036854775807\<rparr>"

section \<open>The reviewer's verdict (package reviewer)\<close>

fun scan_verdict :: "unicode \<Rightarrow> string \<Rightarrow> string list \<Rightarrow> Decision" where
  \<comment> \<open>the loop of \<^verbatim>\<open>parseDecision\<close> over the lines, and the default after it\<close>
  "scan_verdict U output [] =
     \<lparr>Done = False, Feedback_Decision = TrimSpace output, Raw = output\<rparr>"
| "scan_verdict U output (line # rest) =
     (let trimmed = TrimSpace line;
          upper = ToUpper U trimmed
      in if upper = ''DONE'' then \<lparr>Done = True, Feedback_Decision = [], Raw = output\<rparr>
         else if HasPrefix upper ''RETRY:''
         then \<lparr>Done = False,
               Feedback_Decision = TrimSpace (drop (length ''RETRY:'') trimmed),
               Raw = output\<rparr>
         else scan_verdict U output rest)"

definition parseDecision :: "unicode \<Rightarrow> string \<Rightarrow> Decision" where
  "parseDecision U output = scan_verdict U output (Split output CHR ''\<newline>'')"

text \<open>
  The verdict as the specification words it: the first line whose trimmed, upper-cased
  form is \<^verbatim>\<open>DONE\<close> or starts with \<^verbatim>\<open>RETRY:\<close> decides; without such a line the
  verdict is not done, with the whole trimmed output as feedback.
\<close>

definition is_done_line :: "unicode \<Rightarrow> string \<Rightarrow> bool" where
  "is_done_line U line = (ToUpper U (TrimSpace line) = ''DONE'')"

definition is_retry_line :: "unicode \<Rightarrow> string \<Rightarrow> bool" where
  "is_retry_line U line = HasPrefix (ToUpper U (TrimSpace line)) ''RETRY:''"

definition after_colon :: "string \<Rightarrow> string" where
  \<comment> \<open>what follows the six bytes of the \<^verbatim>\<open>RETRY:\<close> marker in the trimmed line\<close>
  "after_colon line = drop 6 (TrimSpace line)"

definition first_verdict :: "unicode \<Rightarrow> string \<Rightarrow> Decision" where
  "first_verdict U output =
     (case find (\<lambda>line. is_done_line U line \<or> is_retry_line U line) (Split output CHR ''\<newline>'') of
        None \<Rightarrow> \<lparr>Done = False, Feedback_Decision = TrimSpace output, Raw = output\<rparr>
      | Some line \<Rightarrow>
          if is_done_line U line then \<lparr>Done = True, Feedback_Decision = [], Raw = output\<rparr>
          else \<lparr>Done = False, Feedback_Decision = TrimSpace (after_colon line), Raw = output\<rparr>)"


section \<open>The task parser (package parser)\<close>

subsection \<open>The slug\<close>

fun slug_loop :: "unicode \<Rightarrow> nat list \<Rightarrow> string \<Rightarrow> bool \<Rightarrow> string" where
  \<comment> \<open>the loop of \<^verbatim>\<open>toSlug\<close> over the runes of the lowered string, with the bytes of the
      builder \<^verbatim>\<open>b\<close> and the flag \<^verbatim>\<open>prevDash\<close>\<close>
  "slug_loop U [] b prevDash = b"
| "slug_loop U (r # rs) b prevDash =
     (if IsLetter U r \<or> IsDigit U r then slug_loop U rs (b @ EncodeRune r) False
      else if \<not> prevDash \<and> 0 < length b then slug_loop U rs (b @ ''-'') True
      else slug_loop U rs b prevDash)"

definition TrimRight_dash :: "string \<Rightarrow> string" where
  \<comment> \<open>\<^verbatim>\<open>strings.TrimRight(s, "-")\<close>\<close>
  "TrimRight_dash s = rev (dropWhile (\<lambda>c. c = CHR ''-'') (rev s))"

definition toSlug :: "unicode \<Rightarrow> string \<Rightarrow> string" where
  "toSlug U s =
     (let res = TrimRight_dash (slug_loop U (runes (ToLower U s)) [] False)
      in if 100 < length res then TrimRight_dash (take 100 res) else res)"

text \<open>
  The pattern \<^verbatim>\<open>^[a-z0-9]+(-[a-z0-9]+)*$\<close> of the specification, as the automaton
  that reads it: the state tells whether the last byte was of \<^verbatim>\<open>[a-z0-9]\<close>, which is
  where a \<^verbatim>\<open>-\<close> may follow and where the string may end.
\<close>

definition lower_alnum :: "char \<Rightarrow> bool" where
  "lower_alnum c = (byte_in c 0x61 0x7A \<or> byte_in c 0x30 0x39)"

fun automaton_run :: "bool \<Rightarrow> string \<Rightarrow> bool option" where
  \<comment> \<open>the state after the string, or \<open>None\<close> when the automaton has rejected it\<close>
  "automaton_run in_word [] = Some in_word"
| "automaton_run in_word (c # cs) =
     (if lower_alnum c then automaton_run True cs
      else if c = CHR ''-'' \<and> in_word then automaton_run False cs
      else None)"

definition slug_pattern :: "string \<Rightarrow> bool" where
  "slug_pattern s = (automaton_run False s = Some True)"

definition lower_ascii_rune :: "nat \<Rightarrow> bool" where
  \<comment> \<open>a rune of an ASCII string that \<^verbatim>\<open>strings.ToLower\<close> has lowered\<close>
  "lower_ascii_rune r = (r < 0x80 \<and> \<not> (0x41 \<le> r \<and> r \<le> 0x5A))"

definition ascii_alnum :: "char \<Rightarrow> bool" where
  \<comment> \<open>an ASCII letter or digit\<close>
  "ascii_alnum c = (byte_in c 0x61 0x7A \<or> byte_in c 0x41 0x5A \<or> byte_in c 0x30 0x39)"

definition slug_of_title :: "Task \<Rightarrow> unicode \<Rightarrow> bool" where
  \<comment> \<open>the slug of the task is the one \<^const>\<open>toSlug\<close> derives from its title\<close>
  "slug_of_title t U = (Slug t = toSlug U (Title t))"

subsection \<open>The patterns\<close>

text \<open>
  The regular expressions of the parser, each as the function that matches it.  All
  are anchored at the start of the line, so \<^verbatim>\<open>ReplaceAllString(line, "")\<close> removes the
  one match: the functions return what follows it.  \<^verbatim>\<open>\s\<close> is ASCII white space
  without the vertical tab, \<^verbatim>\<open>\d\<close> an ASCII digit.
\<close>

definition re_space :: "char \<Rightarrow> bool" where
  "re_space c = ((of_char c :: nat) \<in> {0x09, 0x0A, 0x0C, 0x0D, 0x20})"

definition re_digit :: "char \<Rightarrow> bool" where
  "re_digit c = byte_in c 0x30 0x39"

definition spaces1 :: "string \<Rightarrow> string option" where
  \<comment> \<open>\<^verbatim>\<open>\s+\<close> where the next pattern matches no white space: what follows the run\<close>
  "spaces1 s =
     (case s of
        [] \<Rightarrow> None
      | c # r \<Rightarrow> if re_space c then Some (dropWhile re_space r) else None)"

definition match_bullet :: "string \<Rightarrow> string option" where
  \<comment> \<open>\<^verbatim>\<open>bulletPattern\<close>, \<^verbatim>\<open>^[\s]*[-*]\s+\<close>\<close>
  "match_bullet line =
     (case dropWhile re_space line of
        [] \<Rightarrow> None
      | c # r \<Rightarrow> if c = CHR ''-'' \<or> c = CHR ''*'' then spaces1 r else None)"

definition match_checkbox :: "string \<Rightarrow> (char \<times> string) option" where
  \<comment> \<open>\<^verbatim>\<open>checkboxPattern\<close>, \<^verbatim>\<open>^[\s]*[-*]\s+\[([ xX])\]\s+\<close>: the mark in the box and what
      follows the match\<close>
  "match_checkbox line =
     (case match_bullet line of
        Some (b # mark # e # r) \<Rightarrow>
          if b = CHR ''['' \<and> (mark = CHR '' '' \<or> mark = CHR ''x'' \<or> mark = CHR ''X'')
             \<and> e = CHR '']''
          then map_option (Pair mark) (spaces1 r)
          else None
      | _ \<Rightarrow> None)"

definition match_numbered :: "string \<Rightarrow> string option" where
  \<comment> \<open>\<^verbatim>\<open>numberedPattern\<close>, \<^verbatim>\<open>^[\s]*\d+[.)]\s+\<close>\<close>
  "match_numbered line =
     (let s = dropWhile re_space line in
      if takeWhile re_digit s = [] then None
      else (case dropWhile re_digit s of
              [] \<Rightarrow> None
            | c # r \<Rightarrow> if c = CHR ''.'' \<or> c = CHR '')'' then spaces1 r else None))"

definition ascii_fold :: "char \<Rightarrow> char" where
  "ascii_fold c = (if byte_in c 0x41 0x5A then char_of (of_char c + (32::nat)) else c)"

fun fold_match :: "string \<Rightarrow> string \<Rightarrow> bool" where
  \<comment> \<open>a text is a word of lower-case ASCII letters, spaces and hyphens up to case.  Case
      folding is Unicode's: the long s (U+017F) folds to \<^verbatim>\<open>s\<close> and the Kelvin sign
      (U+212A) to \<^verbatim>\<open>k\<close>.\<close>
  "fold_match [] t = (t = [])"
| "fold_match (p # ps) t =
     (case t of
        [] \<Rightarrow> False
      | c # r \<Rightarrow>
          if ascii_fold c = p then fold_match ps r
          else if p = CHR ''s'' \<and> HasPrefix t [CHR 0xC5, CHR 0xBF] then fold_match ps (drop 2 t)
          else if p = CHR ''k'' \<and> HasPrefix t [CHR 0xE2, CHR 0x84, CHR 0xAA]
          then fold_match ps (drop 3 t)
          else False)"

definition taskSectionPattern :: "string \<Rightarrow> bool" where
  \<comment> \<open>\<^verbatim>\<open>(?i)^##\s+(tasks?|todo|to-?do|action items|work items|checklist|steps)$\<close>\<close>
  "taskSectionPattern s =
     (HasPrefix s ''##''
      \<and> (case spaces1 (drop 2 s) of
            None \<Rightarrow> False
          | Some word \<Rightarrow>
              list_ex (\<lambda>p. fold_match p word)
                [''task'', ''tasks'', ''todo'', ''to-do'', ''action items'', ''work items'',
                 ''checklist'', ''steps'']))"

definition EqualFold_tasks :: "string \<Rightarrow> bool" where
  \<comment> \<open>\<^verbatim>\<open>strings.EqualFold(header, "tasks")\<close>\<close>
  "EqualFold_tasks header = fold_match ''tasks'' header"

definition ann_at :: "string \<Rightarrow> string \<Rightarrow> (string \<times> string) option" where
  \<comment> \<open>a match of \<^verbatim>\<open>\[model:([^\]]+)\]\<close> (or of the same with \<^verbatim>\<open>title\<close>) at the start of the
      string: the group and what follows the match\<close>
  "ann_at opener s =
     (if HasPrefix s opener then
        (let body = drop (length opener) s;
             grp = takeWhile (\<lambda>c. c \<noteq> CHR '']'') body;
             r = dropWhile (\<lambda>c. c \<noteq> CHR '']'') body
         in if grp \<noteq> [] \<and> r \<noteq> [] then Some (grp, tl r) else None)
      else None)"

fun FindStringSubmatch :: "string \<Rightarrow> string \<Rightarrow> string option" where
  \<comment> \<open>the group of the leftmost match\<close>
  "FindStringSubmatch opener [] = None"
| "FindStringSubmatch opener (c # s) =
     (case ann_at opener (c # s) of
        Some (grp, r) \<Rightarrow> Some grp
      | None \<Rightarrow> FindStringSubmatch opener s)"

function ReplaceAll_empty :: "string \<Rightarrow> string \<Rightarrow> string" where
  \<comment> \<open>\<^verbatim>\<open>ReplaceAllString(s, "")\<close>: every match removed, from left to right\<close>
  "ReplaceAll_empty opener s =
     (case s of
        [] \<Rightarrow> []
      | c # s' \<Rightarrow>
          (case ann_at opener s of
             Some (grp, r) \<Rightarrow> ReplaceAll_empty opener r
           | None \<Rightarrow> c # ReplaceAll_empty opener s'))"
  by pat_completeness auto
termination
proof (relation "measure (\<lambda>(opener, s). length s)")
  show "wf (measure (\<lambda>(opener, s). length s))"
    by simp
next
  fix opener s :: string and c s' x grp r
  assume "s = c # s'" and "ann_at opener s = Some x" and "(grp, r) = x"
  then have "r = tl (dropWhile (\<lambda>c. c \<noteq> CHR '']'') (drop (length opener) s))"
    and "dropWhile (\<lambda>c. c \<noteq> CHR '']'') (drop (length opener) s) \<noteq> []"
    by (auto simp: ann_at_def Let_def split: if_splits)
  moreover have "length (dropWhile (\<lambda>c. c \<noteq> CHR '']'') (drop (length opener) s)) \<le> length s"
    by (rule order_trans[OF length_dropWhile_le]) simp
  ultimately have "length r < length s"
    by (cases "dropWhile (\<lambda>c. c \<noteq> CHR '']'') (drop (length opener) s)") auto
  then show "((opener, r), (opener, s)) \<in> measure (\<lambda>(opener, s). length s)"
    by simp
next
  fix opener s :: string and c s'
  assume "s = c # s'" and "ann_at opener s = None"
  then show "((opener, s'), (opener, s)) \<in> measure (\<lambda>(opener, s). length s)"
    by simp
qed

declare ReplaceAll_empty.simps [simp del]

definition modelAnnotation :: string where "modelAnnotation = ''[model:''"
definition titleAnnotation :: string where "titleAnnotation = ''[title:''"

subsection \<open>Tasks from lines\<close>

definition take_annotation :: "string \<Rightarrow> string \<Rightarrow> string \<times> string" where
  \<comment> \<open>the step both parsers repeat for each annotation: when it is found, its trimmed
      group, and the text trimmed with every match removed; else the empty string and
      the text as it is\<close>
  "take_annotation opener text =
     (case FindStringSubmatch opener text of
        None \<Rightarrow> ([], text)
      | Some grp \<Rightarrow> (TrimSpace grp, TrimSpace (ReplaceAll_empty opener text)))"

definition extractTaskFromLine :: "unicode \<Rightarrow> string \<Rightarrow> Task" where
  "extractTaskFromLine U title =
     (let (model, title1) = take_annotation modelAnnotation title;
          (explicitTitle, title2) = take_annotation titleAnnotation title1;
          title3 = (if explicitTitle \<noteq> [] then explicitTitle else title2)
      in \<lparr>Title = title3, Description = [], Slug = toSlug U title3, Model = model\<rparr>)"

definition dropCR :: "string \<Rightarrow> string" where
  "dropCR s = (if s \<noteq> [] \<and> last s = CHR 0x0D then butlast s else s)"

definition raw_lines :: "string \<Rightarrow> string list" where
  \<comment> \<open>the pieces \<^verbatim>\<open>bufio.ScanLines\<close> cuts the content into, before the carriage return is
      dropped: nothing follows the last newline\<close>
  "raw_lines content =
     (let pieces = Split content CHR ''\<newline>''
      in if last pieces = [] then butlast pieces else pieces)"

definition scanner_lines :: "string \<Rightarrow> string list" where
  \<comment> \<open>the lines \<^verbatim>\<open>scanner.Text()\<close> returns\<close>
  "scanner_lines content = map dropCR (raw_lines content)"

definition too_long :: "string \<Rightarrow> bool" where
  \<comment> \<open>a \<^verbatim>\<open>bufio.Scanner\<close> gives up with \<^verbatim>\<open>ErrTooLong\<close> on a line that does not fit its
      buffer of 64 KiB\<close>
  "too_long content = list_ex (\<lambda>piece. 65536 \<le> length piece) (raw_lines content)"

datatype parse_error = CannotOpen string | ReadError | EmptyFile string

definition flush :: "Task list \<Rightarrow> Task option \<Rightarrow> Task list" where
  \<comment> \<open>\<^verbatim>\<open>if currentTask != nil { tasks = append(tasks, *currentTask) }\<close>\<close>
  "flush tasks currentTask = (case currentTask of None \<Rightarrow> tasks | Some t \<Rightarrow> tasks @ [t])"

definition continue_description :: "string \<Rightarrow> Task \<Rightarrow> Task" where
  \<comment> \<open>a continuation line joins the description, after a newline unless it is the first\<close>
  "continue_description line t =
     t\<lparr>Description := (if Description t \<noteq> [] then Description t @ ''\<newline>'' else []) @ line\<rparr>"

definition structured_step :: "unicode \<Rightarrow> Task list \<times> Task option \<times> bool \<Rightarrow> string
    \<Rightarrow> Task list \<times> Task option \<times> bool" where
  \<comment> \<open>one round of the loop of \<^verbatim>\<open>parseStructuredTasks\<close> on \<^verbatim>\<open>tasks\<close>, \<^verbatim>\<open>currentTask\<close> and
      \<^verbatim>\<open>inTasksSection\<close>\<close>
  "structured_step U state line =
     (case state of (tasks, currentTask, inTasksSection) \<Rightarrow>
      let trimmed = TrimSpace line in
      if HasPrefix trimmed ''## '' then
        (flush tasks currentTask, None,
         taskSectionPattern trimmed \<or> EqualFold_tasks (TrimPrefix trimmed ''## ''))
      else if \<not> inTasksSection then (tasks, currentTask, inTasksSection)
      else
        (case match_checkbox line of
           Some (mark, rest) \<Rightarrow>
             if mark = CHR ''x'' \<or> mark = CHR ''X''
             then (flush tasks currentTask, None, inTasksSection)
             else (flush tasks currentTask, Some (extractTaskFromLine U (TrimSpace rest)),
                   inTasksSection)
         | None \<Rightarrow>
             (case match_bullet line of
                Some rest \<Rightarrow>
                  (flush tasks currentTask, Some (extractTaskFromLine U (TrimSpace rest)),
                   inTasksSection)
              | None \<Rightarrow>
                  (case match_numbered line of
                     Some rest \<Rightarrow>
                       (flush tasks currentTask, Some (extractTaskFromLine U (TrimSpace rest)),
                        inTasksSection)
                   | None \<Rightarrow>
                       (tasks, map_option (continue_description line) currentTask,
                        inTasksSection)))))"

definition structured_tasks :: "unicode \<Rightarrow> string list \<Rightarrow> Task list" where
  \<comment> \<open>the tasks of \<^verbatim>\<open>parseStructuredTasks\<close> after the given lines\<close>
  "structured_tasks U lines =
     (case foldl (structured_step U) ([], None, False) lines of
        (tasks, currentTask, inTasksSection) \<Rightarrow> flush tasks currentTask)"

definition parseStructuredTasks :: "unicode \<Rightarrow> string \<Rightarrow> parse_error + Task list" where
  "parseStructuredTasks U content =
     (if too_long content then Inl ReadError
      else Inr (structured_tasks U (scanner_lines content)))"

definition checkbox_step :: "unicode \<Rightarrow> Task list \<times> Task option \<Rightarrow> string
    \<Rightarrow> Task list \<times> Task option" where
  \<comment> \<open>one round of the loop of \<^verbatim>\<open>parseCheckboxTasks\<close> on \<^verbatim>\<open>tasks\<close> and \<^verbatim>\<open>currentTask\<close>\<close>
  "checkbox_step U state line =
     (case state of (tasks, currentTask) \<Rightarrow>
      case match_checkbox line of
        Some (mark, rest) \<Rightarrow>
          if mark = CHR ''x'' \<or> mark = CHR ''X'' then (flush tasks currentTask, None)
          else (flush tasks currentTask, Some (extractTaskFromLine U (TrimSpace rest)))
      | None \<Rightarrow>
          (case currentTask of
             None \<Rightarrow> (tasks, None)
           | Some t \<Rightarrow>
               let trimmed = TrimSpace line in
               if trimmed \<noteq> [] \<and> \<not> HasPrefix trimmed ''#''
               then (tasks, Some (continue_description line t))
               else if trimmed = [] then (tasks @ [t], None)
               else (tasks, Some t)))"

definition checkbox_tasks :: "unicode \<Rightarrow> string list \<Rightarrow> Task list" where
  \<comment> \<open>the tasks of \<^verbatim>\<open>parseCheckboxTasks\<close> after the given lines\<close>
  "checkbox_tasks U lines =
     (case foldl (checkbox_step U) ([], None) lines of
        (tasks, currentTask) \<Rightarrow> flush tasks currentTask)"

definition parseCheckboxTasks :: "unicode \<Rightarrow> string \<Rightarrow> parse_error + Task list" where
  "parseCheckboxTasks U content =
     (if too_long content then Inl ReadError
      else Inr (checkbox_tasks U (scanner_lines content)))"

definition Base :: "string \<Rightarrow> string" where
  \<comment> \<open>\<^verbatim>\<open>filepath.Base\<close>\<close>
  "Base path =
     (if path = [] then ''.''
      else (let p = rev (dropWhile (\<lambda>c. c = CHR ''/'') (rev path))
            in if last_elem p = [] then ''/'' else last_elem p))"

definition Ext :: "string \<Rightarrow> string" where
  \<comment> \<open>\<^verbatim>\<open>filepath.Ext\<close>: from the last dot of the last element on\<close>
  "Ext path =
     (let e = last_elem path;
          tail = takeWhile (\<lambda>c. c \<noteq> CHR ''.'') (rev e)
      in if CHR ''.'' \<in> set e then CHR ''.'' # rev tail else [])"

definition TrimSuffix :: "string \<Rightarrow> string \<Rightarrow> string" where
  \<comment> \<open>\<^verbatim>\<open>strings.TrimSuffix\<close>\<close>
  "TrimSuffix s suffix =
     (if length suffix \<le> length s \<and> drop (length s - length suffix) s = suffix
      then take (length s - length suffix) s else s)"

definition parseFallbackSingleTask :: "unicode \<Rightarrow> string \<Rightarrow> string \<Rightarrow> parse_error + Task list" where
  "parseFallbackSingleTask U content path =
     (if TrimSpace content = [] then Inl (EmptyFile path)
      else
        (let fileName = Base path;
             title = TrimSuffix fileName (Ext fileName);
             (model, content1) = take_annotation modelAnnotation content;
             (explicitTitle, content2) = take_annotation titleAnnotation content1;
             title1 = (if explicitTitle \<noteq> [] then explicitTitle else title)
         in Inr [\<lparr>Title = title1, Description = TrimSpace content2, Slug = toSlug U title1,
                  Model = model\<rparr>]))"

definition ParseFile :: "unicode \<Rightarrow> (string \<rightharpoonup> string) \<Rightarrow> string \<Rightarrow> parse_error + Task list" where
  \<comment> \<open>the files are given by path; seeking back to the start of an open file does not
      fail\<close>
  "ParseFile U fs path =
     (case fs path of
        None \<Rightarrow> Inl (CannotOpen path)
      | Some content \<Rightarrow>
          (case parseStructuredTasks U content of
             Inl err \<Rightarrow> Inl err
           | Inr tasks \<Rightarrow>
               if 0 < length tasks then Inr tasks
               else
                 (case parseCheckboxTasks U content of
                    Inl err \<Rightarrow> Inl err
                  | Inr tasks \<Rightarrow>
                      if 0 < length tasks then Inr tasks
                      else parseFallbackSingleTask U content path)))"

definition slugs_ok :: "unicode \<Rightarrow> Task list \<Rightarrow> Task option \<Rightarrow> bool" where
  \<comment> \<open>the invariant of both scans: the tasks found so far and the one in progress have
      the slug of their title\<close>
  "slugs_ok U tasks cur =
     ((\<forall>t\<in>set tasks. slug_of_title t U) \<and> (\<forall>t. cur = Some t \<longrightarrow> slug_of_title t U))"


subsection \<open>Parallel dispatch (\<^verbatim>\<open>internal/orchestrator\<close>, step 6 of \<^verbatim>\<open>Run\<close>)\<close>

text \<open>
  The parallel branch of \<^verbatim>\<open>Run\<close> starts one goroutine per task and waits for all of them.
  The model is an interleaving: a state holds the buffered channel \<^verbatim>\<open>sem\<close> (its capacity,
  or \<open>None\<close> for the nil channel, and the number of values in its buffer) and the place
  each started goroutine has reached; an event moves the main goroutine or one worker by one
  step.  A worker whose send finds the buffer full does not move.  What \<^verbatim>\<open>runRalphLoop\<close>
  does inside its phase does not touch the channel, so the phase is one place.
\<close>

datatype place =
    AtAcquire    \<comment> \<open>started, before \<^verbatim>\<open>sem <- struct{}{}\<close>\<close>
  | AtStart      \<comment> \<open>past the acquire, before \<^verbatim>\<open>runRalphLoop\<close>\<close>
  | InLoop       \<comment> \<open>inside \<^verbatim>\<open>runRalphLoop\<close>\<close>
  | AtReport     \<comment> \<open>loop returned, before the deferred release\<close>
  | Returned

record dispatch =
  sem :: "nat option"
  buffered :: nat
  goroutines :: "place list"
  unstarted :: nat

datatype event = Coordinator | Worker nat

definition make_sem :: "Config \<Rightarrow> Task list \<Rightarrow> nat option" where
  \<comment> \<open>\<^verbatim>\<open>if cfg.MaxWorktrees > 0 && cfg.MaxWorktrees < len(tasks) { sem = make(...) }\<close>\<close>
  "make_sem cfg tasks =
     (if MaxWorktrees cfg > 0 \<and> MaxWorktrees cfg < int (length tasks)
      then Some (nat (MaxWorktrees cfg)) else None)"

definition dispatch_start :: "Config \<Rightarrow> Task list \<Rightarrow> dispatch" where
  "dispatch_start cfg tasks =
     \<lparr>sem = make_sem cfg tasks, buffered = 0, goroutines = [], unstarted = length tasks\<rparr>"

definition move :: "dispatch \<Rightarrow> nat \<Rightarrow> place \<Rightarrow> dispatch" where
  "move d i p = d\<lparr>goroutines := (goroutines d)[i := p]\<rparr>"

definition worker_step :: "dispatch \<Rightarrow> nat \<Rightarrow> dispatch" where
  "worker_step d i =
     (if length (goroutines d) \<le> i then d
      else case goroutines d ! i of
        AtAcquire \<Rightarrow>
          (case sem d of
             None \<Rightarrow> move d i AtStart
           | Some capacity \<Rightarrow>
               if buffered d < capacity
               then move (d\<lparr>buffered := buffered d + 1\<rparr>) i AtStart
               else d)
      | AtStart \<Rightarrow> move d i InLoop
      | InLoop \<Rightarrow> move d i AtReport
      | AtReport \<Rightarrow>
          (case sem d of
             None \<Rightarrow> move d i Returned
           | Some capacity \<Rightarrow> move (d\<lparr>buffered := buffered d - 1\<rparr>) i Returned)
      | Returned \<Rightarrow> d)"

definition main_step :: "dispatch \<Rightarrow> dispatch" where
  \<comment> \<open>the \<^verbatim>\<open>for i, t := range tasks { wg.Add(1); go ... }\<close> loop, then \<^verbatim>\<open>wg.Wait()\<close>\<close>
  "main_step d =
     (if unstarted d = 0 then d
      else d\<lparr>goroutines := goroutines d @ [AtAcquire], unstarted := unstarted d - 1\<rparr>)"

fun dispatch_step :: "dispatch \<Rightarrow> event \<Rightarrow> dispatch" where
  "dispatch_step d Coordinator = main_step d"
| "dispatch_step d (Worker i) = worker_step d i"

definition dispatch_run :: "Config \<Rightarrow> Task list \<Rightarrow> event list \<Rightarrow> dispatch" where
  "dispatch_run cfg tasks schedule = foldl dispatch_step (dispatch_start cfg tasks) schedule"

definition in_flight :: "dispatch \<Rightarrow> nat" where
  "in_flight d = length (filter (\<lambda>p. p = InLoop) (goroutines d))"

definition all_at_once :: "nat \<Rightarrow> event list" where
  \<comment> \<open>start every goroutine, then let each take its first two steps\<close>
  "all_at_once n = replicate n Coordinator @ map Worker [0..<n] @ map Worker [0..<n]"

definition holds_token :: "place \<Rightarrow> nat" where
  "holds_token p = (if p = AtStart \<or> p = InLoop \<or> p = AtReport then 1 else 0)"

definition dispatch_ok :: "nat \<Rightarrow> dispatch \<Rightarrow> bool" where
  \<comment> \<open>the invariant of the run: started and unstarted goroutines add up to the tasks, and
      a channel's buffer counts the goroutines between acquire and release\<close>
  "dispatch_ok n d =
     (length (goroutines d) + unstarted d = n
      \<and> (case sem d of None \<Rightarrow> True
          | Some capacity \<Rightarrow>
              buffered d = sum_list (map holds_token (goroutines d)) \<and> buffered d \<le> capacity))"


definition three_tasks :: "Task list" where
  "three_tasks =
     [sample_task,
      sample_task\<lparr>Title := ''Fix navbar'', Slug := ''fix-navbar''\<rparr>,
      sample_task\<lparr>Title := ''Write docs'', Slug := ''write-docs''\<rparr>]"


section \<open>Facts about paths\<close>

lemma Split_nonempty: "Split s c \<noteq> []"
  by (induction s) (auto split: list.splits)

lemma Split_append_sep: "Split (a @ c # b) c = Split a c @ Split b c"
  by (induction a) (auto simp: Split_nonempty split: list.splits)

lemma Split_no_sep: "c \<notin> set s \<Longrightarrow> Split s c = [s]"
  by (induction s) auto

lemma takeWhile_no_sep:
  "c \<notin> set n \<Longrightarrow> takeWhile (\<lambda>x. x \<noteq> c) (rev n @ c # r) = rev n"
  by (induction n arbitrary: r rule: rev_induct) auto

lemma last_elem_sep: "CHR ''/'' \<notin> set n \<Longrightarrow> last_elem (p @ CHR ''/'' # n) = n"
  by (simp add: last_elem_def takeWhile_no_sep)

lemma last_elem_plain: "CHR ''/'' \<notin> set n \<Longrightarrow> last_elem n = n"
proof -
  assume "CHR ''/'' \<notin> set n"
  then have "takeWhile (\<lambda>c. c \<noteq> CHR ''/'') (rev n) = rev n"
    by (intro takeWhile_eq_all_conv[THEN iffD2]) auto
  then show ?thesis unfolding last_elem_def by (simp only: rev_rev_ident)
qed

lemma strings_Join_snoc:
  "strings_Join (st @ [n]) sep = (if st = [] then n else strings_Join st sep @ sep @ n)"
  by (induction st sep rule: strings_Join.induct) auto

lemma clean_step_simple: "simple_name n \<Longrightarrow> clean_step r st n = st @ [n]"
  by (auto simp: clean_step_def simple_name_def)

lemma last_elem_Clean_sep:
  assumes "simple_name n"
  shows "last_elem (Clean (a @ CHR ''/'' # n)) = n"
proof -
  have ns: "CHR ''/'' \<notin> set n" and ne: "n \<noteq> []" using assms by (auto simp: simple_name_def)
  define r where "r = (a @ CHR ''/'' # n \<noteq> [] \<and> hd (a @ CHR ''/'' # n) = CHR ''/'')"
  define st where "st = foldl (clean_step r) [] (Split a CHR ''/'')"
  have f: "foldl (clean_step r) [] (Split (a @ CHR ''/'' # n) CHR ''/'') = st @ [n]"
    by (simp add: Split_append_sep Split_no_sep[OF ns] st_def clean_step_simple[OF assms])
  have "Clean (a @ CHR ''/'' # n) = (if r then ''/'' else []) @ strings_Join (st @ [n]) ''/''"
    unfolding Clean_def Let_def r_def[symmetric] f using ne
    by (auto simp: strings_Join_snoc)
  then show ?thesis using ns
    by (auto simp: strings_Join_snoc last_elem_sep last_elem_plain
        last_elem_sep[of n "[]", simplified]
        last_elem_sep[of n "CHR ''/'' # strings_Join st ''/''", simplified]
        last_elem_sep[of n "strings_Join st ''/''", simplified])
qed

lemma last_elem_Clean_plain:
  assumes "simple_name n"
  shows "last_elem (Clean n) = n"
proof -
  have ns: "CHR ''/'' \<notin> set n" and ne: "n \<noteq> []" using assms by (auto simp: simple_name_def)
  have "hd n \<noteq> CHR ''/''" using ns ne by (cases n) auto
  then have "Clean n = n"
    using ne by (simp add: Clean_def Split_no_sep[OF ns] clean_step_simple[OF assms])
  then show ?thesis by (simp add: last_elem_plain[OF ns])
qed

lemma last_elem_Join: "simple_name n \<Longrightarrow> last_elem (Join d n) = n"
  by (auto simp: Join_def last_elem_Clean_sep last_elem_Clean_plain simple_name_def)

lemma Join_inject: "simple_name n \<Longrightarrow> simple_name n' \<Longrightarrow> Join d n = Join d n' \<Longrightarrow> n = n'"
  by (metis last_elem_Join)

section \<open>Properties of the memory store\<close>

lemma simple_memory_names:
  "simple_name fileProgress" "simple_name fileMemory" "simple_name fileAgents" "simple_name fileFeedback"
  by (simp_all add: simple_name_def fileProgress_def fileMemory_def fileAgents_def fileFeedback_def)

lemma WriteFile_ok:
  "WriteFile p c w = (None, w') \<Longrightarrow> w' = w\<lparr>files := (files w)(p \<mapsto> c)\<rparr>"
  by (auto simp: WriteFile_def split: if_splits)

lemma write_range_other:
  "write_range dir m order w = (e, w') \<Longrightarrow> p \<notin> Join dir ` set order \<Longrightarrow> files w' p = files w p"
proof (induction order arbitrary: w)
  case Nil
  then show ?case by simp
next
  case (Cons name rest)
  show ?case
  proof (cases "m name")
    case None
    with Cons show ?thesis by simp
  next
    case (Some c)
    show ?thesis
    proof (cases "Join dir name \<in> unwritable w")
      case True
      with Some Cons.prems show ?thesis by (simp add: WriteFile_def)
    next
      case False
      with Some Cons.prems
      have "write_range dir m rest (w\<lparr>files := (files w)(Join dir name \<mapsto> c)\<rparr>) = (e, w')"
        by (simp add: WriteFile_def)
      from Cons.IH[OF this] Cons.prems(2) show ?thesis by auto
    qed
  qed
qed

lemma write_range_written:
  "write_range dir m order w = (None, w') \<Longrightarrow> \<forall>n\<in>set order. simple_name n \<Longrightarrow>
   n \<in> set order \<Longrightarrow> m n = Some c \<Longrightarrow> files w' (Join dir n) = Some c"
proof (induction order arbitrary: w)
  case Nil
  then show ?case by simp
next
  case (Cons name rest)
  show ?case
  proof (cases "m name")
    case None
    with Cons show ?thesis by auto
  next
    case (Some c')
    with Cons.prems(1) have nw: "Join dir name \<notin> unwritable w"
      by (auto simp: WriteFile_def split: if_splits)
    with Some Cons.prems(1)
    have run: "write_range dir m rest (w\<lparr>files := (files w)(Join dir name \<mapsto> c')\<rparr>) = (None, w')"
      by (simp add: WriteFile_def)
    show ?thesis
    proof (cases "n \<in> set rest")
      case True
      from Cons.IH[OF run _ True Cons.prems(4)] Cons.prems(2) show ?thesis by simp
    next
      case False
      with Cons.prems(3) have eq: "n = name" by simp
      have "Join dir n \<notin> Join dir ` set rest"
      proof
        assume "Join dir n \<in> Join dir ` set rest"
        then obtain n' where "n' \<in> set rest" "Join dir n = Join dir n'" by auto
        moreover have "simple_name n" "simple_name n'"
          using Cons.prems(2,3) \<open>n' \<in> set rest\<close> by auto
        ultimately have "n = n'" by (auto dest: Join_inject)
        with \<open>n' \<in> set rest\<close> False show False by simp
      qed
      from write_range_other[OF run this] eq Some Cons.prems(4) show ?thesis by simp
    qed
  qed
qed

lemma memory_files_lookup:
  "memory_files data fileProgress = Some (progress_blob data)"
  "memory_files data fileMemory = Some (mem_blob data)"
  "memory_files data fileAgents = Some (buildAgentsFile data)"
  "memory_files data fileFeedback = Some (feedback_blob data)"
  by (simp_all add: memory_files_def fileProgress_def fileMemory_def fileAgents_def fileFeedback_def)

lemma Write_stores:
  assumes "set order = memory_file_names" "Write order dir data w = (None, w')"
  shows "files w' (Join dir fileProgress) = Some (progress_blob data)"
    "files w' (Join dir fileMemory) = Some (mem_blob data)"
    "files w' (Join dir fileAgents) = Some (buildAgentsFile data)"
    "files w' (Join dir fileFeedback) = Some (feedback_blob data)"
proof -
  have simple: "\<forall>n\<in>set order. simple_name n"
    using assms(1) simple_memory_names by (auto simp: memory_file_names_def)
  have run: "write_range dir (memory_files data) order w = (None, w')"
    using assms(2) by (simp add: Write_def)
  have mem: "fileProgress \<in> set order" "fileMemory \<in> set order" "fileAgents \<in> set order"
    "fileFeedback \<in> set order"
    using assms(1) by (simp_all add: memory_file_names_def)
  show "files w' (Join dir fileProgress) = Some (progress_blob data)"
    by (rule write_range_written[OF run simple mem(1) memory_files_lookup(1)])
  show "files w' (Join dir fileMemory) = Some (mem_blob data)"
    by (rule write_range_written[OF run simple mem(2) memory_files_lookup(2)])
  show "files w' (Join dir fileAgents) = Some (buildAgentsFile data)"
    by (rule write_range_written[OF run simple mem(3) memory_files_lookup(3)])
  show "files w' (Join dir fileFeedback) = Some (feedback_blob data)"
    by (rule write_range_written[OF run simple mem(4) memory_files_lookup(4)])
qed

lemma Load_after_Write:
  assumes "set order = memory_file_names" "Write order dir data w = (None, w')"
  shows "Load dir w' = \<lparr>Progress = progress_blob data, Memory = mem_blob data,
    Agents = buildAgentsFile data, Feedback = feedback_blob data\<rparr>"
  using Write_stores[OF assms] by (simp add: Load_def readFile_def ReadFile_def)

text \<open>
  C6.  Memory round trip: when \<open>Write\<close> succeeds (it ranges over the four file names, in
  any order), \<open>Load\<close> of the same workspace path returns exactly the four blobs
  that \<open>Write\<close> built, the memory blob holding the worker output as truncated; and a
  file that is missing when \<open>Load\<close> runs gives the empty string for its blob.
\<close>

theorem memory_round_trip:
  "(set order = memory_file_names \<and> Write order worktreePath data w = (None, w')
      \<longrightarrow> Load worktreePath w' =
          \<lparr>Progress = progress_blob data, Memory = mem_blob data,
           Agents = buildAgentsFile data, Feedback = feedback_blob data\<rparr>)
   \<and> (files w (Join worktreePath fileProgress) = None \<longrightarrow> Progress (Load worktreePath w) = [])
   \<and> (files w (Join worktreePath fileMemory) = None \<longrightarrow> Memory (Load worktreePath w) = [])
   \<and> (files w (Join worktreePath fileAgents) = None \<longrightarrow> Agents (Load worktreePath w) = [])
   \<and> (files w (Join worktreePath fileFeedback) = None \<longrightarrow> Feedback (Load worktreePath w) = [])"
  using Load_after_Write[of order worktreePath data w w']
  by (simp add: Load_def readFile_def ReadFile_def)

lemma Join_wt:
  "Join ''wt'' fileProgress = ''wt/PROGRESS.md''"
  "Join ''wt'' fileMemory = ''wt/MEMORY.md''"
  "Join ''wt'' fileAgents = ''wt/AGENTS.md''"
  "Join ''wt'' fileFeedback = ''wt/FEEDBACK.md''"
  by (simp_all add: Join_def Clean_def clean_step_def fileProgress_def fileMemory_def
      fileAgents_def fileFeedback_def)

theorem memory_round_trip_witness:
  "set [fileMemory, fileProgress, fileFeedback, fileAgents] = memory_file_names
   \<and> fst (Write [fileMemory, fileProgress, fileFeedback, fileAgents] ''wt''
        \<lparr>Iteration = 1, Task = ''t'', WorkerOutput = ''out'', ReviewerNotes = ''more tests'',
         Status = ''in-progress''\<rparr>
        \<lparr>files = Map.empty, unwritable = {}, printed = []\<rparr>) = None
   \<and> Load ''wt'' (snd (Write [fileMemory, fileProgress, fileFeedback, fileAgents] ''wt''
        \<lparr>Iteration = 1, Task = ''t'', WorkerOutput = ''out'', ReviewerNotes = ''more tests'',
         Status = ''in-progress''\<rparr>
        \<lparr>files = Map.empty, unwritable = {}, printed = []\<rparr>))
     = \<lparr>Progress = ''# Task Progress\<newline>\<newline>**Task:** t\<newline>\<newline>**Iteration:** 1\<newline>\<newline>**Status:** in-progress\<newline>'',
        Memory = ''# Worker Memory\<newline>\<newline>## Iteration 1 Output\<newline>\<newline>out\<newline>'',
        Agents = buildAgentsFile \<lparr>Iteration = 1, Task = ''t'', WorkerOutput = ''out'',
          ReviewerNotes = ''more tests'', Status = ''in-progress''\<rparr>,
        Feedback = ''# Reviewer Feedback\<newline>\<newline>## Iteration 1\<newline>\<newline>more tests\<newline>''\<rparr>
   \<and> files \<lparr>files = Map.empty, unwritable = {}, printed = []\<rparr> (Join ''wt'' fileFeedback) = None
   \<and> Load ''wt'' \<lparr>files = Map.empty, unwritable = {}, printed = []\<rparr>
     = \<lparr>Progress = [], Memory = [], Agents = [], Feedback = []\<rparr>"
proof -
  let ?ord = "[fileMemory, fileProgress, fileFeedback, fileAgents]"
  let ?d = "\<lparr>Iteration = 1, Task = ''t'', WorkerOutput = ''out'', ReviewerNotes = ''more tests'',
         Status = ''in-progress''\<rparr>"
  let ?w = "\<lparr>files = Map.empty, unwritable = {}, printed = []\<rparr>"
  have ord: "set ?ord = memory_file_names"
    by (auto simp: memory_file_names_def)
  have ok: "fst (Write ?ord ''wt'' ?d ?w) = None"
    by (simp add: Write_def memory_files_lookup WriteFile_def)
  then have run: "Write ?ord ''wt'' ?d ?w = (None, snd (Write ?ord ''wt'' ?d ?w))"
    by (simp add: prod_eq_iff)
  have blobs: "progress_blob ?d = ''# Task Progress\<newline>\<newline>**Task:** t\<newline>\<newline>**Iteration:** 1\<newline>\<newline>**Status:** in-progress\<newline>''"
    "mem_blob ?d = ''# Worker Memory\<newline>\<newline>## Iteration 1 Output\<newline>\<newline>out\<newline>''"
    "feedback_blob ?d = ''# Reviewer Feedback\<newline>\<newline>## Iteration 1\<newline>\<newline>more tests\<newline>''"
    by (simp_all add: progress_blob_def mem_blob_def feedback_blob_def truncate_str_def itoa_def
        decimal.simps digit_def)
  from memory_round_trip[of ?ord "''wt''" ?d ?w "snd (Write ?ord ''wt'' ?d ?w)"] ord ok run blobs
  show ?thesis
    by (simp add: Load_def readFile_def ReadFile_def)
qed

section \<open>Properties of the workspace manager\<close>

lemma resolve_from_first_free:
  "i0 \<le> i \<Longrightarrow> i < 100 \<Longrightarrow> \<not> branchExists E r (b @ ''-'' @ itoa i) s \<Longrightarrow>
   (\<forall>j. i0 \<le> j \<and> j < i \<longrightarrow> branchExists E r (b @ ''-'' @ itoa j) s) \<Longrightarrow>
   resolve_from E r b i0 s = b @ ''-'' @ itoa i"
proof (induction E r b i0 s rule: resolve_from.induct)
  case (1 E r b i0 s)
  show ?case
  proof (cases "i0 = i")
    case True
    with 1 show ?thesis by (simp add: resolve_from.simps)
  next
    case False
    with 1 have lt: "i0 < i" and ex: "branchExists E r (b @ ''-'' @ itoa i0) s" by auto
    have "resolve_from E r b (i0 + 1) s = b @ ''-'' @ itoa i"
      using 1 lt ex by (intro "1.IH") (auto simp: Let_def)
    with lt ex 1(3) show ?thesis
      by (subst resolve_from.simps) simp
  qed
qed

lemma resolveBranch_free: "\<not> branchExists E (RepoRoot m) b s \<Longrightarrow> resolveBranch E m b s = b"
  by (simp add: resolveBranch_def)

lemma resolveBranch_suffixed:
  "branchExists E (RepoRoot m) b s \<Longrightarrow> 2 \<le> i \<Longrightarrow> i < 100 \<Longrightarrow>
   (\<forall>j. 2 \<le> j \<and> j < i \<longrightarrow> branchExists E (RepoRoot m) (b @ ''-'' @ itoa j) s) \<Longrightarrow>
   \<not> branchExists E (RepoRoot m) (b @ ''-'' @ itoa i) s \<Longrightarrow>
   resolveBranch E m b s = b @ ''-'' @ itoa i"
  by (simp add: resolveBranch_def resolve_from_first_free)

lemma create_new_branch:
  "create_new E m slug path st = (Inr e, st') \<Longrightarrow>
   Branch e = resolveBranch E m (BranchPrefix m @ ''/'' @ slug) (ext st)"
  by (auto simp: create_new_def save_and_return_def pending_entry_def Let_def
      split: prod.splits option.splits)

lemma Create_branch:
  assumes "Create E m slug st = (Inr e, st')"
    and "\<not> reusable E m (worktree_path E m slug (ext st)) (ext st)"
    and "clear_path E m (worktree_path E m slug (ext st)) (ext st) = (None, s1)"
  shows "Branch e = resolveBranch E m (BranchPrefix m @ ''/'' @ slug) s1"
proof -
  from assms have "create_new E m slug (worktree_path E m slug (ext st)) (st\<lparr>ext := s1\<rparr>) = (Inr e, st')"
    by (auto simp: Create_def Let_def split: option.splits)
  from create_new_branch[OF this] show ?thesis by simp
qed

lemma itoa_2_3: "itoa 2 = ''2''" "itoa 3 = ''3''"
  by (simp_all add: itoa_def decimal.simps digit_def)

lemma resolve_feature_t:
  assumes "branchExists E (RepoRoot m) ''feature/t'' s"
    and "branchExists E (RepoRoot m) ''feature/t-2'' s"
    and "\<not> branchExists E (RepoRoot m) ''feature/t-3'' s"
  shows "resolveBranch E m ''feature/t'' s = ''feature/t-3''"
proof -
  have "\<forall>j. 2 \<le> j \<and> j < (3::int) \<longrightarrow> branchExists E (RepoRoot m) (''feature/t'' @ ''-'' @ itoa j) s"
  proof (intro allI impI)
    fix j :: int assume "2 \<le> j \<and> j < 3"
    then have "j = 2" by arith
    with assms(2) show "branchExists E (RepoRoot m) (''feature/t'' @ ''-'' @ itoa j) s"
      by (simp add: itoa_2_3)
  qed
  with resolveBranch_suffixed[of E m "''feature/t''" s 3] assms show ?thesis
    by (simp add: itoa_2_3)
qed

text \<open>
  C4.  The branch of a new workspace is resolved from \<open>branch-prefix/slug\<close>: that name
  when the branch-existence check finds it free, and otherwise the first free name
  among the suffixed \<open>-2\<close>, \<open>-3\<close>, ... up to \<open>-99\<close>.  With \<open>feature/t\<close> and \<open>feature/t-2\<close>
  taken and \<open>feature/t-3\<close> free, \<open>Create\<close> of the slug \<open>t\<close> gives the branch
  \<open>feature/t-3\<close>.  The existence check is the one made when the name is resolved,
  after the path has been cleared; a path that is a worktree already keeps its branch.
\<close>

theorem resolveBranch_first_free:
  "(\<not> branchExists E (RepoRoot m) b s \<longrightarrow> resolveBranch E m b s = b)
   \<and> (branchExists E (RepoRoot m) b s \<and> 2 \<le> i \<and> i < 100
        \<and> (\<forall>j. 2 \<le> j \<and> j < i \<longrightarrow> branchExists E (RepoRoot m) (b @ ''-'' @ itoa j) s)
        \<and> \<not> branchExists E (RepoRoot m) (b @ ''-'' @ itoa i) s
       \<longrightarrow> resolveBranch E m b s = b @ ''-'' @ itoa i)
   \<and> (Create E m slug st = (Inr e, st')
        \<and> \<not> reusable E m (worktree_path E m slug (ext st)) (ext st)
        \<and> clear_path E m (worktree_path E m slug (ext st)) (ext st) = (None, s1)
       \<longrightarrow> Branch e = resolveBranch E m (BranchPrefix m @ ''/'' @ slug) s1)
   \<and> (BranchPrefix m = ''feature'' \<and> Create E m ''t'' st = (Inr e, st')
        \<and> \<not> reusable E m (worktree_path E m ''t'' (ext st)) (ext st)
        \<and> clear_path E m (worktree_path E m ''t'' (ext st)) (ext st) = (None, s1)
        \<and> branchExists E (RepoRoot m) ''feature/t'' s1
        \<and> branchExists E (RepoRoot m) ''feature/t-2'' s1
        \<and> \<not> branchExists E (RepoRoot m) ''feature/t-3'' s1
       \<longrightarrow> Branch e = ''feature/t-3'')"
proof (intro conjI impI)
  show "\<not> branchExists E (RepoRoot m) b s \<Longrightarrow> resolveBranch E m b s = b"
    by (rule resolveBranch_free)
  show "resolveBranch E m b s = b @ ''-'' @ itoa i"
    if "branchExists E (RepoRoot m) b s \<and> 2 \<le> i \<and> i < 100
        \<and> (\<forall>j. 2 \<le> j \<and> j < i \<longrightarrow> branchExists E (RepoRoot m) (b @ ''-'' @ itoa j) s)
        \<and> \<not> branchExists E (RepoRoot m) (b @ ''-'' @ itoa i) s"
    using that by (intro resolveBranch_suffixed) auto
  show "Branch e = resolveBranch E m (BranchPrefix m @ ''/'' @ slug) s1"
    if "Create E m slug st = (Inr e, st')
        \<and> \<not> reusable E m (worktree_path E m slug (ext st)) (ext st)
        \<and> clear_path E m (worktree_path E m slug (ext st)) (ext st) = (None, s1)"
    using that by (intro Create_branch) auto
  show "Branch e = ''feature/t-3''"
    if h: "BranchPrefix m = ''feature'' \<and> Create E m ''t'' st = (Inr e, st')
        \<and> \<not> reusable E m (worktree_path E m ''t'' (ext st)) (ext st)
        \<and> clear_path E m (worktree_path E m ''t'' (ext st)) (ext st) = (None, s1)
        \<and> branchExists E (RepoRoot m) ''feature/t'' s1
        \<and> branchExists E (RepoRoot m) ''feature/t-2'' s1
        \<and> \<not> branchExists E (RepoRoot m) ''feature/t-3'' s1"
  proof -
    from h have "Branch e = resolveBranch E m (BranchPrefix m @ ''/'' @ ''t'') s1"
      by (intro Create_branch) auto
    with h resolve_feature_t[of E m s1] show ?thesis by simp
  qed
qed

theorem resolveBranch_first_free_witness:
  "\<not> branchExists toy_scm ''/repo'' ''feature/new'' (ext toy_start)
   \<and> resolveBranch toy_scm toy_manager ''feature/new'' (ext toy_start) = ''feature/new''
   \<and> branchExists toy_scm ''/repo'' ''feature/t'' (ext toy_start)
   \<and> branchExists toy_scm ''/repo'' ''feature/t-2'' (ext toy_start)
   \<and> \<not> branchExists toy_scm ''/repo'' ''feature/t-3'' (ext toy_start)
   \<and> resolveBranch toy_scm toy_manager ''feature/t'' (ext toy_start) = ''feature/t-3''
   \<and> fst (Create toy_scm toy_manager ''t'' toy_start) =
       Inr \<lparr>Slug_Entry = ''t'', Path = ''/repo/.worktrees/t'', Branch = ''feature/t-3'',
            Status_Entry = ''pending''\<rparr>"
proof -
  let ?e = "\<lparr>Slug_Entry = ''t'', Path = ''/repo/.worktrees/t'', Branch = ''feature/t-3'',
            Status_Entry = ''pending''\<rparr>"
  let ?s1 = "snd (clear_path toy_scm toy_manager ''/repo/.worktrees/t'' (ext toy_start))"
  have root: "RepoRoot toy_manager = ''/repo''" and prefix: "BranchPrefix toy_manager = ''feature''"
    by (simp_all add: toy_manager_def)
  have new: "\<not> branchExists toy_scm ''/repo'' ''feature/new'' (ext toy_start)"
    by code_simp
  have t1: "branchExists toy_scm ''/repo'' ''feature/t'' (ext toy_start)"
    and t2: "branchExists toy_scm ''/repo'' ''feature/t-2'' (ext toy_start)"
    and t3: "\<not> branchExists toy_scm ''/repo'' ''feature/t-3'' (ext toy_start)"
    by code_simp+
  have path: "worktree_path toy_scm toy_manager ''t'' (ext toy_start) = ''/repo/.worktrees/t''"
    by code_simp
  have fresh: "\<not> reusable toy_scm toy_manager ''/repo/.worktrees/t'' (ext toy_start)"
    by code_simp
  have "fst (clear_path toy_scm toy_manager ''/repo/.worktrees/t'' (ext toy_start)) = None"
    by code_simp
  then have clear: "clear_path toy_scm toy_manager ''/repo/.worktrees/t'' (ext toy_start) = (None, ?s1)"
    by (simp add: prod_eq_iff)
  have c1: "branchExists toy_scm ''/repo'' ''feature/t'' ?s1"
    and c2: "branchExists toy_scm ''/repo'' ''feature/t-2'' ?s1"
    and c3: "\<not> branchExists toy_scm ''/repo'' ''feature/t-3'' ?s1"
    by code_simp+
  have e: "fst (Create toy_scm toy_manager ''t'' toy_start) = Inr ?e"
    by code_simp
  from e have run: "Create toy_scm toy_manager ''t'' toy_start
      = (Inr ?e, snd (Create toy_scm toy_manager ''t'' toy_start))"
    by (simp add: prod_eq_iff)
  have j: "\<forall>j. 2 \<le> j \<and> j < (3::int) \<longrightarrow>
      branchExists toy_scm ''/repo'' (''feature/t'' @ ''-'' @ itoa j) (ext toy_start)"
  proof (intro allI impI)
    fix j :: int assume "2 \<le> j \<and> j < 3"
    then have "j = 2" by arith
    with t2 show "branchExists toy_scm ''/repo'' (''feature/t'' @ ''-'' @ itoa j) (ext toy_start)"
      by (simp add: itoa_2_3)
  qed
  have r_new: "resolveBranch toy_scm toy_manager ''feature/new'' (ext toy_start) = ''feature/new''"
    using resolveBranch_first_free[where E = toy_scm and m = toy_manager and b = "''feature/new''"
        and s = "ext toy_start"] new
    by (simp add: root)
  have r_t: "resolveBranch toy_scm toy_manager ''feature/t'' (ext toy_start) = ''feature/t-3''"
    using resolveBranch_first_free[where E = toy_scm and m = toy_manager and b = "''feature/t''"
        and s = "ext toy_start" and i = 3] t1 t3 j
    by (simp add: root itoa_2_3)
  have "Branch ?e = ''feature/t-3''"
    using resolveBranch_first_free[where E = toy_scm and m = toy_manager and st = toy_start
        and e = ?e and st' = "snd (Create toy_scm toy_manager ''t'' toy_start)" and ?s1.0 = ?s1]
      run fresh clear c1 c2 c3
    by (simp add: root prefix path)
  with e new t1 t2 t3 r_new r_t show ?thesis by simp
qed

text \<open>
  C5, as the claim states it, fails: the manifest tracks the slug \<open>t\<close> and its workspace
  is already gone from the repository.  \<open>Destroy\<close> returns the failure of the removal
  and stops there: the manifest entry and the branch are still in place.
\<close>

theorem Destroy_gone_keeps_entry:
  "fst (Destroy toy_scm toy_manager ''t'' toy_gone)
     = Some (WorktreeRemoveFailed ''fatal: not a working tree'')
   \<and> GetEntry ''t'' (snd (Destroy toy_scm toy_manager ''t'' toy_gone)) = Inr toy_entry
   \<and> ''feature/t'' \<in> set (toy_branches (ext (snd (Destroy toy_scm toy_manager ''t'' toy_gone))))"
  by (simp add: Destroy_def GetEntry_def loadManifest_def toy_gone_def toy_scm_def toy_entry_def
      toy_manager_def)

text \<open>
  C5, amended.  \<open>Destroy\<close> looks the slug up in the manifest and asks the SCM to remove
  the workspace with force.  When that succeeds, it runs the branch deletion, whatever
  its outcome, and removes the slug's manifest entry.  When the removal fails, as it
  does for a workspace that is already gone, it returns that failure and leaves the
  manifest and the branch as they are.  A slug that the manifest does not track is an
  error.
\<close>

theorem Destroy_outcomes:
  "(manifest st = Holds mf \<and> mf slug = Some entry \<and> \<not> manifest_unwritable st
      \<and> worktree_remove E (RepoRoot m) (Path entry) (ext st) = (None, s')
     \<longrightarrow> Destroy E m slug st =
           (None, st\<lparr>ext := snd (branch_delete E (Branch entry) s'),
                     manifest := Holds (mf(slug := None))\<rparr>)
         \<and> GetEntry slug (snd (Destroy E m slug st)) = Inl (NoEntry slug))
   \<and> (manifest st = Holds mf \<and> mf slug = Some entry
      \<and> worktree_remove E (RepoRoot m) (Path entry) (ext st) = (Some out, s')
     \<longrightarrow> Destroy E m slug st = (Some (WorktreeRemoveFailed out), st\<lparr>ext := s'\<rparr>)
         \<and> GetEntry slug (snd (Destroy E m slug st)) = Inr entry)
   \<and> (manifest st = Holds mf \<and> mf slug = None
     \<longrightarrow> Destroy E m slug st = (Some (NoEntry slug), st))"
  by (simp add: Destroy_def GetEntry_def loadManifest_def removeEntry_def read_for_update_def
      write_manifest_def)

theorem Destroy_outcomes_witness:
  "manifest toy_tracked = Holds [''t'' \<mapsto> toy_entry]
   \<and> \<not> manifest_unwritable toy_tracked
   \<and> fst (worktree_remove toy_scm ''/repo'' ''/repo/.worktrees/t'' (ext toy_tracked)) = None
   \<and> fst (Destroy toy_scm toy_manager ''t'' toy_tracked) = None
   \<and> GetEntry ''t'' (snd (Destroy toy_scm toy_manager ''t'' toy_tracked)) = Inl (NoEntry ''t'')
   \<and> toy_branches (ext (snd (Destroy toy_scm toy_manager ''t'' toy_tracked))) = [''main'']
   \<and> manifest toy_gone = Holds [''t'' \<mapsto> toy_entry]
   \<and> fst (worktree_remove toy_scm ''/repo'' ''/repo/.worktrees/t'' (ext toy_gone))
       = Some ''fatal: not a working tree''
   \<and> fst (Destroy toy_scm toy_manager ''t'' toy_gone)
       = Some (WorktreeRemoveFailed ''fatal: not a working tree'')
   \<and> GetEntry ''t'' (snd (Destroy toy_scm toy_manager ''t'' toy_gone)) = Inr toy_entry
   \<and> fst (Destroy toy_scm toy_manager ''u'' toy_gone) = Some (NoEntry ''u'')"
proof -
  let ?mf = "[''t'' \<mapsto> toy_entry]"
  let ?s1 = "snd (worktree_remove toy_scm (RepoRoot toy_manager) (Path toy_entry) (ext toy_tracked))"
  have root: "RepoRoot toy_manager = ''/repo''" by (simp add: toy_manager_def)
  have path: "Path toy_entry = ''/repo/.worktrees/t''" and branch: "Branch toy_entry = ''feature/t''"
    by (simp_all add: toy_entry_def)
  have m1: "manifest toy_tracked = Holds ?mf" "\<not> manifest_unwritable toy_tracked"
    by (simp_all add: toy_tracked_def)
  have m2: "manifest toy_gone = Holds ?mf" by (simp add: toy_gone_def)
  have look: "?mf ''t'' = Some toy_entry" "?mf ''u'' = None" by simp_all
  have rm1: "worktree_remove toy_scm (RepoRoot toy_manager) (Path toy_entry) (ext toy_tracked)
      = (None, ?s1)"
    by (simp add: toy_scm_def toy_tracked_def root path)
  have rm2: "worktree_remove toy_scm (RepoRoot toy_manager) (Path toy_entry) (ext toy_gone)
      = (Some ''fatal: not a working tree'', ext toy_gone)"
    by (simp add: toy_scm_def toy_gone_def root path)
  have br: "toy_branches (snd (branch_delete toy_scm (Branch toy_entry) ?s1)) = [''main'']"
    by (simp add: toy_scm_def toy_tracked_def root path branch)
  have ok: "Destroy toy_scm toy_manager ''t'' toy_tracked =
           (None, toy_tracked\<lparr>ext := snd (branch_delete toy_scm (Branch toy_entry) ?s1),
                     manifest := Holds (?mf(''t'' := None))\<rparr>)
         \<and> GetEntry ''t'' (snd (Destroy toy_scm toy_manager ''t'' toy_tracked)) = Inl (NoEntry ''t'')"
    using Destroy_outcomes[where E = toy_scm and m = toy_manager and st = toy_tracked
      and mf = ?mf and slug = "''t''" and entry = toy_entry and s' = ?s1] m1 look(1) rm1
    by blast
  have gone: "Destroy toy_scm toy_manager ''t'' toy_gone
        = (Some (WorktreeRemoveFailed ''fatal: not a working tree''), toy_gone\<lparr>ext := ext toy_gone\<rparr>)
      \<and> GetEntry ''t'' (snd (Destroy toy_scm toy_manager ''t'' toy_gone)) = Inr toy_entry"
    using Destroy_outcomes[where E = toy_scm and m = toy_manager and st = toy_gone
      and mf = ?mf and slug = "''t''" and entry = toy_entry and s' = "ext toy_gone"
      and out = "''fatal: not a working tree''"] m2 look(1) rm2
    by blast
  have unknown: "Destroy toy_scm toy_manager ''u'' toy_gone = (Some (NoEntry ''u''), toy_gone)"
    using Destroy_outcomes[where E = toy_scm and m = toy_manager and st = toy_gone
      and mf = ?mf and slug = "''u''"] m2 look(2)
    by blast
  have c1: "fst (worktree_remove toy_scm ''/repo'' ''/repo/.worktrees/t'' (ext toy_tracked)) = None"
    using rm1 by (simp add: prod_eq_iff root path)
  have c2: "fst (worktree_remove toy_scm ''/repo'' ''/repo/.worktrees/t'' (ext toy_gone))
       = Some ''fatal: not a working tree''"
    using rm2 by (simp add: root path)
  have c3: "fst (Destroy toy_scm toy_manager ''t'' toy_tracked) = None"
    using ok by simp
  have c4: "toy_branches (ext (snd (Destroy toy_scm toy_manager ''t'' toy_tracked))) = [''main'']"
    using conjunct1[OF ok] br by simp
  have c5: "fst (Destroy toy_scm toy_manager ''t'' toy_gone)
       = Some (WorktreeRemoveFailed ''fatal: not a working tree'')"
    using gone by simp
  have c6: "fst (Destroy toy_scm toy_manager ''u'' toy_gone) = Some (NoEntry ''u'')"
    using unknown by simp
  show ?thesis
    using m1 m2 c1 c2 c3 c4 c5 c6 conjunct2[OF ok] conjunct2[OF gone] by blast
qed

section \<open>Properties of the refinement loop\<close>

lemma iteration_facts:
  assumes "iteration X cfg task entry maxIter iter w = ((done, vars'), w')"
  shows "Iterations vars' = iter" and "\<not> Success (FinalWorkerResult vars') \<Longrightarrow> done"
  using assms by (auto simp: iteration_def Let_def split: prod.splits if_splits)

lemma int_wrap_small: "- int_max - 1 \<le> k \<Longrightarrow> k \<le> int_max \<Longrightarrow> int_wrap k = k"
  by (simp add: int_wrap_def int_max_def signed_take_bit_int_eq_self)

lemma int_wrap_range: "- int_max - 1 \<le> int_wrap k \<and> int_wrap k \<le> int_max"
  using signed_take_bit_int_less_exp[of 63 k] signed_take_bit_int_greater_eq_minus_exp[of 63 k]
  by (simp add: int_wrap_def int_max_def)

lemma ralph_for_past_end:
  "maxIter < iter \<Longrightarrow> ralph_for X cfg task entry maxIter iter vars w = Some (vars, w)"
  by (simp add: ralph_for.simps)

lemma ralph_for_returns:
  assumes "1 \<le> iter" and "iter \<le> maxIter" and "maxIter < int_max"
  shows "\<exists>lr w'. ralph_for X cfg task entry maxIter iter vars w = Some (lr, w')
    \<and> iter \<le> Iterations lr \<and> Iterations lr \<le> maxIter"
  using assms
proof (induction "nat (maxIter - iter)" arbitrary: iter vars w)
  case 0
  then have last: "iter = maxIter" by simp
  obtain fin vars1 w1 where it: "iteration X cfg task entry maxIter iter w = ((fin, vars1), w1)"
    by (metis surj_pair)
  from "0.prems" last have next_iter: "int_wrap (iter + 1) = maxIter + 1"
    by (simp add: int_wrap_small)
  have "ralph_for X cfg task entry maxIter iter vars w = Some (vars1, w1)"
    using it last next_iter ralph_for_past_end[of maxIter "maxIter + 1" X cfg task entry vars1 w1]
    by (subst ralph_for.simps) simp
  with iteration_facts(1)[OF it] last show ?case by simp
next
  case (Suc n)
  then have more: "iter + 1 \<le> maxIter" and n: "n = nat (maxIter - (iter + 1))" by simp_all
  obtain fin vars1 w1 where it: "iteration X cfg task entry maxIter iter w = ((fin, vars1), w1)"
    by (metis surj_pair)
  note count = iteration_facts(1)[OF it]
  show ?case
  proof (cases fin)
    case True
    with it Suc.prems have "ralph_for X cfg task entry maxIter iter vars w = Some (vars1, w1)"
      by (subst ralph_for.simps) simp
    with count Suc.prems show ?thesis by simp
  next
    case False
    from Suc.prems more have next_iter: "int_wrap (iter + 1) = iter + 1"
      by (simp add: int_wrap_small)
    from Suc.hyps(1)[OF n _ more Suc.prems(3), of vars1 w1] Suc.prems(1)
    obtain lr w' where run: "ralph_for X cfg task entry maxIter (iter + 1) vars1 w1 = Some (lr, w')"
      and lo: "iter + 1 \<le> Iterations lr" and hi: "Iterations lr \<le> maxIter"
      by auto
    from False it Suc.prems run next_iter
    have "ralph_for X cfg task entry maxIter iter vars w = Some (lr, w')"
      by (subst ralph_for.simps) simp
    with lo hi show ?thesis by simp
  qed
qed

lemma effective_max_max: "effective_max cfg = max 1 (MaxIterations_Config cfg)"
  by (simp add: effective_max_def)

text \<open>
  Below the largest \<^verbatim>\<open>int\<close> the counter cannot wrap: the loop returns, and the
  iteration count it returns is between 1 and the maximum, a maximum below 1 counting
  as 1.
\<close>

lemma loop_returns_below_int_max:
  assumes "MaxIterations_Config cfg < int_max"
  shows "\<exists>lr w'. runRalphLoop X cfg task entry w = Some (lr, w')
    \<and> 1 \<le> Iterations lr \<and> Iterations lr \<le> max 1 (MaxIterations_Config cfg)"
proof -
  have "effective_max cfg < int_max"
    using assms by (simp add: effective_max_def int_max_def)
  moreover have "1 \<le> effective_max cfg" by (simp add: effective_max_def)
  ultimately show ?thesis
    using ralph_for_returns[of 1 "effective_max cfg" X cfg task entry zero_LoopResult w]
    by (simp add: runRalphLoop_def effective_max_max)
qed

lemma retry_not_done:
  assumes "ReviewerModel cfg \<noteq> []"
    and "iteration retry_actors cfg task entry maxIter iter w = ((fin, vars'), w')"
  shows "\<not> fin"
  using assms
  by (auto simp: iteration_def run_reviewer_def retry_actors_def Let_def split: prod.splits)

lemma retry_never_returns:
  assumes "ralph_for X cfg task entry maxIter iter vars w = Some y"
  shows "\<not> (X = retry_actors \<and> ReviewerModel cfg \<noteq> [] \<and> maxIter = int_max \<and> iter \<le> int_max)"
proof -
  let ?stuck = "\<lambda>X cfg (task::Task) (entry::Entry) maxIter iter (vars::LoopResult) (w::world)
      (y::LoopResult \<times> world).
    \<not> (X = retry_actors \<and> ReviewerModel cfg \<noteq> [] \<and> maxIter = int_max \<and> iter \<le> int_max)"
  show ?thesis
  proof (rule ralph_for.raw_induct[where P = ?stuck, OF _ assms])
    fix loop X cfg task entry maxIter iter vars w y
    assume IH: "\<And>X cfg task entry maxIter iter vars w y.
        loop X cfg task entry maxIter iter vars w = Some y \<Longrightarrow>
        \<not> (X = retry_actors \<and> ReviewerModel cfg \<noteq> [] \<and> maxIter = int_max \<and> iter \<le> int_max)"
      and body: "(if iter \<le> maxIter then
          (case iteration X cfg task entry maxIter iter w of
             ((done, vars'), w') \<Rightarrow>
               if done then Some (vars', w')
               else loop X cfg task entry maxIter (int_wrap (iter + 1)) vars' w')
        else Some (vars, w)) = Some y"
    show "\<not> (X = retry_actors \<and> ReviewerModel cfg \<noteq> [] \<and> maxIter = int_max \<and> iter \<le> int_max)"
    proof
      assume a: "X = retry_actors \<and> ReviewerModel cfg \<noteq> [] \<and> maxIter = int_max \<and> iter \<le> int_max"
      obtain fin vars1 w1 where it: "iteration X cfg task entry maxIter iter w = ((fin, vars1), w1)"
        by (metis surj_pair)
      with a have "\<not> fin" using retry_not_done by blast
      with body it a
      have "loop X cfg task entry maxIter (int_wrap (iter + 1)) vars1 w1 = Some y"
        by simp
      from IH[OF this] a int_wrap_range[of "iter + 1"] show False by simp
    qed
  qed
qed

text \<open>
  C8 fails on the code for the largest maximum.  With
  \<^verbatim>\<open>--max-iterations 9223372036854775807\<close>, a worker that succeeds and a reviewer that
  always answers \<^verbatim>\<open>RETRY\<close>, the test \<^verbatim>\<open>iter <= maxIter\<close> holds for every value of
  \<^verbatim>\<open>iter\<close>, also after \<^verbatim>\<open>iter++\<close> has wrapped around, and no iteration ends with
  \<^verbatim>\<open>break\<close>: the loop never returns, so no maximum bounds the worker invocations.
\<close>

theorem loop_unbounded_at_int_max:
  "MaxIterations_Config patient_config = int_max
   \<and> ReviewerModel patient_config = ''claude-opus-4-6''
   \<and> int_wrap (int_max + 1) = - int_max - 1
   \<and> runRalphLoop retry_actors patient_config sample_task sample_entry empty_world = None"
proof -
  have cfg: "MaxIterations_Config patient_config = int_max"
    "ReviewerModel patient_config = ''claude-opus-4-6''"
    by (simp_all add: patient_config_def int_max_def)
  have wrap: "int_wrap (int_max + 1) = - int_max - 1"
    by (simp add: int_wrap_def int_max_def signed_take_bit_eq_take_bit_minus)
  have mx: "effective_max patient_config = int_max"
    by (simp add: effective_max_def cfg int_max_def)
  have "runRalphLoop retry_actors patient_config sample_task sample_entry empty_world \<noteq> Some y" for y
    using retry_never_returns[of retry_actors patient_config sample_task sample_entry int_max 1
        zero_LoopResult empty_world y]
    by (auto simp: runRalphLoop_def mx cfg int_max_def)
  then have "runRalphLoop retry_actors patient_config sample_task sample_entry empty_world = None"
    by (cases "runRalphLoop retry_actors patient_config sample_task sample_entry empty_world") auto
  with cfg wrap show ?thesis by simp
qed

lemma single_pass:
  assumes "ReviewerModel cfg = []" and "MaxIterations_Config cfg \<le> 1"
  shows "runRalphLoop X cfg task entry w =
    (let opts = invoke_options cfg task entry 1 1 (Load (Path entry) w);
         result = fst (Invoke X opts (Slug task) w);
         data = \<lparr>Iteration = 1, Task = fullTaskContext task, WorkerOutput = Output result,
                 ReviewerNotes = [], Status = (if Success result then ''done'' else ''failed'')\<rparr>;
         w' = snd (Write (range_order X 1) (Path entry) data (snd (Invoke X opts (Slug task) w)))
     in Some (\<lparr>FinalWorkerResult = result, Iterations = 1, FinalMemory = Load (Path entry) w'\<rparr>, w'))"
proof -
  have mx: "effective_max cfg = 1" using assms(2) by (simp add: effective_max_def)
  have off: "\<not> loopEnabled cfg" using assms by (simp add: loopEnabled_def)
  show ?thesis
    unfolding runRalphLoop_def mx
    by (subst ralph_for.simps)
      (auto simp: iteration_def run_reviewer_def off assms(1) Let_def split: prod.splits)
qed

text \<open>
  C9 fails on the code.  With the default configuration (no reviewer, one iteration)
  and a worker that touches no file, a single \<open>Invoke\<close> leaves the workspace without
  \<^verbatim>\<open>PROGRESS.md\<close>, while the loop around the same call writes it, with the other
  three memory files: the loop skips its progress line when it is not enabled, but not
  the write of the memory files.
\<close>

theorem loop_writes_memory_files:
  "ReviewerModel Default = [] \<and> MaxIterations_Config Default = 1
   \<and> files (snd (Invoke quiet_actors
        (invoke_options Default sample_task sample_entry 1 1 (Load (Path sample_entry) empty_world))
        (Slug sample_task) empty_world)) ''/repo/.worktrees/add-auth/PROGRESS.md'' = None
   \<and> map_option (\<lambda>(lr, w'). files w' ''/repo/.worktrees/add-auth/PROGRESS.md'')
        (runRalphLoop quiet_actors Default sample_task sample_entry empty_world)
       = Some (Some ''# Task Progress\<newline>\<newline>**Task:** Add auth\<newline>\<newline>**Iteration:** 1\<newline>\<newline>**Status:** done\<newline>'')"
proof -
  have d: "ReviewerModel Default = []" "MaxIterations_Config Default \<le> 1" "MaxIterations_Config Default = 1"
    by (simp_all add: Default_def)
  have p: "Join ''/repo/.worktrees/add-auth'' fileProgress = ''/repo/.worktrees/add-auth/PROGRESS.md''"
    "Join ''/repo/.worktrees/add-auth'' fileMemory = ''/repo/.worktrees/add-auth/MEMORY.md''"
    "Join ''/repo/.worktrees/add-auth'' fileAgents = ''/repo/.worktrees/add-auth/AGENTS.md''"
    "Join ''/repo/.worktrees/add-auth'' fileFeedback = ''/repo/.worktrees/add-auth/FEEDBACK.md''"
    by (simp_all add: Join_def Clean_def clean_step_def fileProgress_def fileMemory_def
        fileAgents_def fileFeedback_def)
  show ?thesis
    unfolding single_pass[OF d(1,2)]
    by (simp add: d quiet_actors_def sample_task_def sample_entry_def empty_world_def Write_def
        memory_files_lookup WriteFile_def p progress_blob_def fullTaskContext_def itoa_def
        decimal.simps digit_def Let_def)
qed

section \<open>Properties of the reviewer's verdict\<close>

lemma scan_verdict_find:
  "scan_verdict U output ls =
     (case find (\<lambda>line. is_done_line U line \<or> is_retry_line U line) ls of
        None \<Rightarrow> \<lparr>Done = False, Feedback_Decision = TrimSpace output, Raw = output\<rparr>
      | Some line \<Rightarrow>
          if is_done_line U line then \<lparr>Done = True, Feedback_Decision = [], Raw = output\<rparr>
          else \<lparr>Done = False, Feedback_Decision = TrimSpace (after_colon line), Raw = output\<rparr>)"
  by (induction ls) (auto simp: Let_def is_done_line_def is_retry_line_def after_colon_def eval_nat_numeral)

text \<open>
  C1.  \<open>parseDecision\<close> is the verdict of the first line, in the order of the output,
  whose trimmed and upper-cased form equals \<^verbatim>\<open>DONE\<close> or starts with \<^verbatim>\<open>RETRY:\<close>:
  done with empty feedback for the former, not done with the trimmed rest of the
  trimmed line after the marker as feedback for the latter.  Without such a line the
  verdict is not done and the feedback is the whole output, trimmed.  The raw output is
  kept in every case.
\<close>

theorem parseDecision_first_verdict:
  "parseDecision U output = first_verdict U output"
  by (simp add: parseDecision_def first_verdict_def scan_verdict_find)

section \<open>Facts about runes and white space\<close>

lemma rune_at_ascii: "(of_char c :: nat) < 0x80 \<Longrightarrow> rune_at c rest = (of_char c, 0)"
  by (simp add: rune_at_def)

lemma rune_at_bounds: "snd (rune_at c rest) \<le> length rest"
  by (simp add: rune_at_def Let_def) (metis length_take min.cobounded1)

lemma second_lo_high: "0x80 \<le> second_lo b0"
  by (simp add: second_lo_def)

lemma rune_at_high:
  "\<forall>x\<in>set (take (snd (rune_at c rest)) rest). (0x80::nat) \<le> of_char x"
proof (cases "snd (rune_at c rest) = 0")
  case True
  then show ?thesis by simp
next
  case False
  define tail where "tail = take (tail_len (of_char c)) rest"
  from False have ok: "length tail = tail_len (of_char c)" "0 < tail_len (of_char c)"
    "byte_in (hd tail) (second_lo (of_char c)) (second_hi (of_char c))"
    "list_all (\<lambda>x. byte_in x 0x80 0xBF) (tl tail)"
    and n: "snd (rune_at c rest) = tail_len (of_char c)"
    by (auto simp: rune_at_def Let_def tail_def split: if_splits)
  from ok(1,2) obtain x xs where tail: "tail = x # xs" by (cases tail) auto
  with ok(3,4) second_lo_high[of "of_char c"] have "\<forall>y\<in>set tail. (0x80::nat) \<le> of_char y"
    by (auto simp: byte_in_def list_all_iff)
  with n show ?thesis by (simp add: tail_def)
qed

lemma IsSpace_ascii: "(of_char c :: nat) < 0x80 \<Longrightarrow> IsSpace (of_char c) = asciiSpace c"
  by (auto simp: IsSpace_def asciiSpace_def)

lemma TrimLeftSpace_split:
  "\<exists>pre. s = pre @ TrimLeftSpace s \<and> (\<forall>c\<in>set pre. blank_byte c)"
proof (induction s rule: TrimLeftSpace.induct)
  case 1
  then show ?case by simp
next
  case (2 c rest)
  show ?case
  proof (cases "IsSpace (fst (rune_at c rest))")
    case False
    then show ?thesis by simp
  next
    case True
    let ?k = "snd (rune_at c rest)"
    from 2[OF True] obtain pre where pre: "drop ?k rest = pre @ TrimLeftSpace (drop ?k rest)"
      "\<forall>x\<in>set pre. blank_byte x" by blast
    have c: "blank_byte c"
    proof (cases "(of_char c :: nat) < 0x80")
      case True
      with \<open>IsSpace (fst (rune_at c rest))\<close> show ?thesis
        by (simp add: rune_at_ascii IsSpace_ascii blank_byte_def)
    next
      case False
      then show ?thesis by (simp add: blank_byte_def)
    qed
    have mid: "\<forall>x\<in>set (take ?k rest). blank_byte x"
      using rune_at_high[of c rest] by (auto simp: blank_byte_def)
    have "c # rest = (c # take ?k rest @ pre) @ TrimLeftSpace (c # rest)"
      using True pre(1) by simp
    moreover have "\<forall>x\<in>set (c # take ?k rest @ pre). blank_byte x"
      using c mid pre(2) by auto
    ultimately show ?thesis by blast
  qed
qed

lemma DecodeRune_whole_high:
  assumes "DecodeRune u = (r, n)" and "n = length u" and "u \<noteq> []" and "(0x80::nat) \<le> of_char (hd u)"
  shows "\<forall>x\<in>set u. (0x80::nat) \<le> of_char x"
proof -
  from assms(3) obtain c rest where u: "u = c # rest" by (cases u) auto
  with assms(1,2) have k: "snd (rune_at c rest) = length rest"
    by (auto simp: DecodeRune_def)
  from rune_at_high[of c rest] k have "\<forall>x\<in>set rest. (0x80::nat) \<le> of_char x" by simp
  with u assms(4) show ?thesis by simp
qed

lemma DecodeLastRune_blank:
  assumes "s \<noteq> []" and "IsSpace (fst (DecodeLastRune s))" and "0 < snd (DecodeLastRune s)"
  shows "snd (DecodeLastRune s) \<le> length s
    \<and> (\<forall>x\<in>set (drop (length s - snd (DecodeLastRune s)) s). blank_byte x)"
proof (cases "(of_char (last s) :: nat) < 0x80")
  case True
  with assms have "DecodeLastRune s = (of_char (last s), 1)" "asciiSpace (last s)"
    by (auto simp: DecodeLastRune_def Let_def IsSpace_ascii)
  moreover have "drop (length s - 1) s = [last s]"
    using assms(1) by (cases s rule: rev_cases) auto
  ultimately show ?thesis using assms(1) by (cases s) (auto simp: blank_byte_def)
next
  case False
  define start where "start = nat (max 0 (scan_back s (int (length s) - 2) (max 0 (int (length s) - 4))))"
  obtain r size where d: "DecodeRune (drop start s) = (r, size)" by (metis surj_pair)
  have "\<not> IsSpace RuneError" by (simp add: IsSpace_def RuneError_def)
  with False assms d have ok: "start + size = length s" "DecodeLastRune s = (r, size)"
    by (auto simp: DecodeLastRune_def Let_def start_def[symmetric] split: if_splits)
  with assms(3) have size: "0 < size" "size \<le> length s" "length s - size = start" by auto
  have tl_blank: "\<forall>x\<in>set (drop start s). blank_byte x"
  proof (cases "(of_char (hd (drop start s)) :: nat) < 0x80")
    case True
    from size ok(1) have ne: "drop start s \<noteq> []" by auto
    then obtain c rest where u: "drop start s = c # rest" by (cases "drop start s") auto
    with True d have "size = 1" by (auto simp: DecodeRune_def rune_at_ascii)
    with ok(1) u have "rest = []" by (metis One_nat_def add_diff_cancel_left' length_Cons length_drop
          length_0_conv diff_add_inverse2 plus_1_eq_Suc old.nat.inject)
    with u have "last s = c"
      by (metis ne last_drop last.simps drop_eq_Nil not_le)
    with True u False show ?thesis by simp
  next
    case False
    from size ok(1) have ne: "drop start s \<noteq> []" by auto
    have "size = length (drop start s)" using ok(1) by simp
    from DecodeRune_whole_high[OF d this ne] False show ?thesis
      by (auto simp: blank_byte_def)
  qed
  with ok size show ?thesis by simp
qed

lemma TrimRightSpace_empty_blank:
  "TrimRightSpace s = [] \<Longrightarrow> \<forall>c\<in>set s. blank_byte c"
proof (induction s rule: TrimRightSpace.induct)
  case (1 s)
  show ?case
  proof (cases "s \<noteq> [] \<and> IsSpace (fst (DecodeLastRune s)) \<and> 0 < snd (DecodeLastRune s)")
    case False
    with "1.prems" have "s = []" by (subst (asm) TrimRightSpace.simps) (simp split: if_splits)
    then show ?thesis by simp
  next
    case True
    let ?n = "snd (DecodeLastRune s)"
    from True "1.prems" have "TrimRightSpace (take (length s - ?n) s) = []"
      by (subst (asm) TrimRightSpace.simps) simp
    from "1.IH"[OF True this] have front: "\<forall>c\<in>set (take (length s - ?n) s). blank_byte c" .
    from DecodeLastRune_blank True have rear: "\<forall>x\<in>set (drop (length s - ?n) s). blank_byte x"
      by blast
    have "set s = set (take (length s - ?n) s) \<union> set (drop (length s - ?n) s)"
      by (metis append_take_drop_id set_append)
    with front rear show ?thesis by auto
  qed
qed

lemma TrimSpace_empty_blank:
  assumes "TrimSpace s = []"
  shows "\<forall>c\<in>set s. blank_byte c"
proof -
  from TrimLeftSpace_split obtain pre where pre: "s = pre @ TrimLeftSpace s" "\<forall>c\<in>set pre. blank_byte c"
    by blast
  from assms have "\<forall>c\<in>set (TrimLeftSpace s). blank_byte c"
    by (intro TrimRightSpace_empty_blank) (simp add: TrimSpace_def)
  with pre show ?thesis by (metis Un_iff set_append)
qed

section \<open>Properties of the task parser\<close>

lemma Split_piece_length: "p \<in> set (Split s c) \<Longrightarrow> length p \<le> length s"
proof (induction s arbitrary: p)
  case Nil
  then show ?case by simp
next
  case (Cons x xs)
  show ?case
  proof (cases "x = c")
    case True
    with Cons show ?thesis by (auto intro: le_SucI)
  next
    case False
    obtain q qs where q: "Split xs c = q # qs" using Split_nonempty by (cases "Split xs c") auto
    with False Cons.prems have "p = x # q \<or> p \<in> set qs" by auto
    with Cons.IH[of q] Cons.IH[of p] q show ?thesis by (auto intro: le_SucI)
  qed
qed

lemma too_long_content: "too_long content \<Longrightarrow> 65536 \<le> length content"
proof -
  assume "too_long content"
  then obtain p where "p \<in> set (raw_lines content)" "65536 \<le> length p"
    by (auto simp: too_long_def list_ex_iff)
  moreover have "set (raw_lines content) \<subseteq> set (Split content CHR ''\<newline>'')"
    by (auto simp: raw_lines_def Let_def dest: in_set_butlastD)
  ultimately show ?thesis using Split_piece_length by fastforce
qed

lemma blank_line_start:
  assumes "\<forall>c\<in>set line. blank_byte c" and "dropWhile re_space line = c # r"
  shows "c \<noteq> CHR ''-''" and "c \<noteq> CHR ''*''" and "\<not> re_digit c"
proof -
  from assms(2) have "c \<in> set line" "\<not> re_space c"
    by (metis list.set_intros(1) set_dropWhileD, metis hd_dropWhile list.sel(1) list.distinct(1))
  with assms(1) have "(of_char c :: nat) = 0x0B \<or> (0x80::nat) \<le> of_char c"
    by (auto simp: blank_byte_def asciiSpace_def re_space_def)
  then show "c \<noteq> CHR ''-''" and "c \<noteq> CHR ''*''" and "\<not> re_digit c"
    by (auto simp: re_digit_def byte_in_def)
qed

lemma blank_no_bullet:
  "\<forall>c\<in>set line. blank_byte c \<Longrightarrow> match_bullet line = None"
  by (auto simp: match_bullet_def split: list.splits dest: blank_line_start)

lemma blank_no_checkbox:
  "\<forall>c\<in>set line. blank_byte c \<Longrightarrow> match_checkbox line = None"
  by (simp add: match_checkbox_def blank_no_bullet)

lemma blank_no_numbered:
  assumes "\<forall>c\<in>set line. blank_byte c"
  shows "match_numbered line = None"
proof (cases "dropWhile re_space line")
  case Nil
  show ?thesis unfolding match_numbered_def Nil by simp
next
  case (Cons c r)
  with blank_line_start(3)[OF assms Cons] show ?thesis by (simp add: match_numbered_def)
qed

lemma structured_step_blank:
  assumes "TrimSpace line = []"
  shows "structured_step U (tasks, Some t, True) line
    = (tasks, Some (continue_description line t), True)"
proof -
  note b = TrimSpace_empty_blank[OF assms]
  show ?thesis
    by (simp add: structured_step_def assms HasPrefix_def blank_no_bullet[OF b]
        blank_no_checkbox[OF b] blank_no_numbered[OF b])
qed

lemma checkbox_step_blank:
  assumes "TrimSpace line = []"
  shows "checkbox_step U (tasks, Some t) line = (tasks @ [t], None)"
  by (simp add: checkbox_step_def assms blank_no_checkbox[OF TrimSpace_empty_blank[OF assms]])

text \<open>
  C3, as the claim states it, fails.  In the structured section scan, a checkbox item
  under \<^verbatim>\<open>## Tasks\<close> is followed by the line \<^verbatim>\<open>x\<close>, a blank line and the line
  \<^verbatim>\<open>y\<close>: the blank line does not end the item, and its description holds all three
  lines.
\<close>

theorem structured_checkbox_keeps_blank:
  "parseStructuredTasks latin1_tables ''## Tasks\<newline>- [ ] A\<newline>x\<newline>\<newline>y\<newline>''
     = Inr [\<lparr>Title = ''A'', Description = ''x\<newline>\<newline>y'', Slug = ''a'', Model = []\<rparr>]"
proof -
  let ?U = latin1_tables
  let ?t = "\<lambda>d. \<lparr>Title = ''A'', Description = d, Slug = ''a'', Model = []\<rparr>"
  have lines: "scanner_lines ''## Tasks\<newline>- [ ] A\<newline>x\<newline>\<newline>y\<newline>''
      = [''## Tasks'', ''- [ ] A'', ''x'', [], ''y'']"
    by code_simp
  have short: "\<not> too_long ''## Tasks\<newline>- [ ] A\<newline>x\<newline>\<newline>y\<newline>''"
    using too_long_content by fastforce
  have s1: "structured_step ?U ([], None, False) ''## Tasks'' = ([], None, True)"
    by code_simp
  have s2: "structured_step ?U ([], None, True) ''- [ ] A'' = ([], Some (?t []), True)"
    by code_simp
  have s3: "structured_step ?U ([], Some (?t []), True) ''x'' = ([], Some (?t ''x''), True)"
    by code_simp
  have s4: "structured_step ?U ([], Some (?t ''x''), True) [] = ([], Some (?t ''x\<newline>''), True)"
    by code_simp
  have s5: "structured_step ?U ([], Some (?t ''x\<newline>''), True) ''y'' = ([], Some (?t ''x\<newline>\<newline>y''), True)"
    by code_simp
  show ?thesis
    by (simp add: parseStructuredTasks_def structured_tasks_def short lines s1 s2 s3 s4 s5 flush_def)
qed

text \<open>
  C3, amended.  In the structured section scan a blank line inside a tasks section
  joins the description of the item in progress, whatever its kind (checkbox, bullet or
  numbered): after a newline when the description has text already, as its first line
  otherwise.  In the global checkbox scan a blank line ends the checkbox item in
  progress: the task is complete, and the lines that follow join no description until
  the next checkbox.
\<close>

theorem blank_line_steps:
  "(TrimSpace line = [] \<longrightarrow>
      structured_step U (tasks, Some t, True) line
        = (tasks,
           Some (t\<lparr>Description :=
                     (if Description t \<noteq> [] then Description t @ ''\<newline>'' @ line else line)\<rparr>),
           True))
   \<and> (TrimSpace line = [] \<longrightarrow> checkbox_step U (tasks, Some t) line = (tasks @ [t], None))
   \<and> (match_checkbox other = None \<longrightarrow> checkbox_step U (tasks, None) other = (tasks, None))"
  by (simp add: structured_step_blank checkbox_step_blank continue_description_def)
    (simp add: checkbox_step_def)

theorem blank_line_steps_witness:
  "TrimSpace [CHR 0x20, CHR 0x09] = []
   \<and> structured_step latin1_tables
        ([], Some \<lparr>Title = ''A'', Description = ''x'', Slug = ''a'', Model = []\<rparr>, True)
        [CHR 0x20, CHR 0x09]
      = ([], Some \<lparr>Title = ''A'', Description = ''x\<newline>'' @ [CHR 0x20, CHR 0x09], Slug = ''a'',
                    Model = []\<rparr>, True)
   \<and> checkbox_step latin1_tables
        ([], Some \<lparr>Title = ''A'', Description = ''x'', Slug = ''a'', Model = []\<rparr>)
        [CHR 0x20, CHR 0x09]
      = ([\<lparr>Title = ''A'', Description = ''x'', Slug = ''a'', Model = []\<rparr>], None)
   \<and> match_checkbox ''y'' = None
   \<and> checkbox_step latin1_tables
        ([\<lparr>Title = ''A'', Description = ''x'', Slug = ''a'', Model = []\<rparr>], None) ''y''
      = ([\<lparr>Title = ''A'', Description = ''x'', Slug = ''a'', Model = []\<rparr>], None)"
proof -
  have blank: "TrimSpace [CHR 0x20, CHR 0x09] = []" by code_simp
  have other: "match_checkbox ''y'' = None" by code_simp
  from blank other
    blank_line_steps[of "[CHR 0x20, CHR 0x09]" latin1_tables "[]"
      "\<lparr>Title = ''A'', Description = ''x'', Slug = ''a'', Model = []\<rparr>" "''y''"]
    blank_line_steps[of "[CHR 0x20, CHR 0x09]" latin1_tables
      "[\<lparr>Title = ''A'', Description = ''x'', Slug = ''a'', Model = []\<rparr>]"
      "\<lparr>Title = ''A'', Description = ''x'', Slug = ''a'', Model = []\<rparr>" "''y''"]
  show ?thesis by simp
qed

section \<open>Properties of the slug\<close>

lemma extract_slug: "slug_of_title (extractTaskFromLine U title) U"
  by (simp add: extractTaskFromLine_def slug_of_title_def Let_def split: prod.splits)

lemma continue_slug: "slug_of_title t U \<Longrightarrow> slug_of_title (continue_description line t) U"
  by (simp add: continue_description_def slug_of_title_def)

lemma flush_slug: "slugs_ok U tasks cur \<Longrightarrow> slugs_ok U (flush tasks cur) next_task = (\<forall>t. next_task = Some t \<longrightarrow> slug_of_title t U)"
  by (auto simp: slugs_ok_def flush_def split: option.splits)

lemma structured_step_slug:
  assumes "slugs_ok U tasks cur" and "structured_step U (tasks, cur, sec) line = (tasks', cur', sec')"
  shows "slugs_ok U tasks' cur'"
  using assms
  by (auto simp: structured_step_def Let_def flush_slug extract_slug
      split: if_splits option.splits prod.splits)
    (auto simp: slugs_ok_def continue_slug)

lemma checkbox_step_slug:
  assumes "slugs_ok U tasks cur" and "checkbox_step U (tasks, cur) line = (tasks', cur')"
  shows "slugs_ok U tasks' cur'"
  using assms
  by (auto simp: checkbox_step_def Let_def flush_slug extract_slug
      split: if_splits option.splits prod.splits)
    (auto simp: slugs_ok_def continue_slug)

lemma structured_fold_slug:
  "slugs_ok U tasks cur \<Longrightarrow> foldl (structured_step U) (tasks, cur, sec) lines = (tasks', cur', sec')
   \<Longrightarrow> slugs_ok U tasks' cur'"
proof (induction lines arbitrary: tasks cur sec)
  case Nil
  then show ?case by simp
next
  case (Cons line lines)
  obtain t1 c1 s1 where step: "structured_step U (tasks, cur, sec) line = (t1, c1, s1)"
    by (metis prod_cases3)
  from structured_step_slug[OF Cons.prems(1) step] Cons.prems(2) step show ?case
    by (auto intro: Cons.IH)
qed

lemma checkbox_fold_slug:
  "slugs_ok U tasks cur \<Longrightarrow> foldl (checkbox_step U) (tasks, cur) lines = (tasks', cur')
   \<Longrightarrow> slugs_ok U tasks' cur'"
proof (induction lines arbitrary: tasks cur)
  case Nil
  then show ?case by simp
next
  case (Cons line lines)
  obtain t1 c1 where step: "checkbox_step U (tasks, cur) line = (t1, c1)"
    by (metis surj_pair)
  from checkbox_step_slug[OF Cons.prems(1) step] Cons.prems(2) step show ?case
    by (auto intro: Cons.IH)
qed

lemma slugs_ok_flush: "slugs_ok U tasks cur \<Longrightarrow> \<forall>t\<in>set (flush tasks cur). slug_of_title t U"
  by (auto simp: slugs_ok_def flush_def split: option.splits)

lemma structured_tasks_slug: "t \<in> set (structured_tasks U lines) \<Longrightarrow> slug_of_title t U"
proof -
  assume t: "t \<in> set (structured_tasks U lines)"
  obtain t1 c1 s1 where f: "foldl (structured_step U) ([], None, False) lines = (t1, c1, s1)"
    by (metis prod_cases3)
  have "slugs_ok U [] None" by (simp add: slugs_ok_def)
  from structured_fold_slug[OF this f] t f show ?thesis
    by (auto simp: structured_tasks_def dest: slugs_ok_flush)
qed

lemma checkbox_tasks_slug: "t \<in> set (checkbox_tasks U lines) \<Longrightarrow> slug_of_title t U"
proof -
  assume t: "t \<in> set (checkbox_tasks U lines)"
  obtain t1 c1 where f: "foldl (checkbox_step U) ([], None) lines = (t1, c1)"
    by (metis surj_pair)
  have "slugs_ok U [] None" by (simp add: slugs_ok_def)
  from checkbox_fold_slug[OF this f] t f show ?thesis
    by (auto simp: checkbox_tasks_def dest: slugs_ok_flush)
qed

lemma fallback_slug:
  "parseFallbackSingleTask U content path = Inr tasks \<Longrightarrow> t \<in> set tasks \<Longrightarrow> slug_of_title t U"
  by (auto simp: parseFallbackSingleTask_def slug_of_title_def Let_def split: if_splits prod.splits)

lemma ParseFile_slug:
  assumes "ParseFile U fs path = Inr tasks" and "t \<in> set tasks"
  shows "Slug t = toSlug U (Title t)"
proof -
  from assms have "slug_of_title t U"
    by (auto simp: ParseFile_def parseStructuredTasks_def parseCheckboxTasks_def
        split: option.splits sum.splits if_splits
        dest: structured_tasks_slug checkbox_tasks_slug fallback_slug)
  then show ?thesis by (simp add: slug_of_title_def)
qed

lemma TrimRight_dash_prefix: "\<exists>k. TrimRight_dash s = take k s"
proof -
  have "rev s = takeWhile (\<lambda>c. c = CHR ''-'') (rev s) @ dropWhile (\<lambda>c. c = CHR ''-'') (rev s)"
    by simp
  then have "s = TrimRight_dash s @ rev (takeWhile (\<lambda>c. c = CHR ''-'') (rev s))"
    unfolding TrimRight_dash_def by (metis rev_append rev_rev_ident)
  then have "TrimRight_dash s = take (length (TrimRight_dash s)) s"
    by (metis append_eq_conv_conj)
  then show ?thesis ..
qed

lemma TrimRight_dash_length: "length (TrimRight_dash s) \<le> length s"
  by (simp add: TrimRight_dash_def) (metis length_dropWhile_le length_rev)

lemma TrimRight_dash_hd: "TrimRight_dash s \<noteq> [] \<Longrightarrow> hd (TrimRight_dash s) = hd s"
  using TrimRight_dash_prefix[of s] by (metis hd_take take_eq_Nil2 take_eq_Nil not_gr_zero)

lemma TrimRight_dash_last: "TrimRight_dash s \<noteq> [] \<Longrightarrow> last (TrimRight_dash s) \<noteq> CHR ''-''"
  unfolding TrimRight_dash_def
  by (metis (mono_tags, lifting) hd_dropWhile last_rev rev_is_Nil_conv)

lemma char_of_dash: "char_of (n::nat) = CHR ''-'' \<Longrightarrow> n mod 256 = 45"
proof -
  assume "char_of n = CHR ''-''"
  then have "(of_char (char_of n) :: nat) = of_char CHR ''-''" by simp
  then show ?thesis by (simp add: of_char_of)
qed

lemma EncodeRune_first:
  assumes "IsLetter U r \<or> IsDigit U r"
  shows "EncodeRune r \<noteq> [] \<and> hd (EncodeRune r) \<noteq> CHR ''-''"
proof -
  have ne: "EncodeRune r \<noteq> []" by (simp add: EncodeRune_def)
  have "hd (EncodeRune r) \<noteq> CHR ''-''"
  proof
    assume h: "hd (EncodeRune r) = CHR ''-''"
    have small: "n < 256 \<Longrightarrow> n mod 256 \<noteq> 45 \<or> n = 45" for n :: nat
      by simp
    consider "r \<le> 0x7F" | "0x7F < r" "r \<le> 0x7FF"
      | "0x7FF < r" "0x10FFFF < r \<or> (0xD800 \<le> r \<and> r \<le> 0xDFFF)"
      | "0x7FF < r" "\<not> (0x10FFFF < r \<or> (0xD800 \<le> r \<and> r \<le> 0xDFFF))" "r \<le> 0xFFFF"
      | "0xFFFF < r" "r \<le> 0x10FFFF"
      by linarith
    then show False
    proof cases
      case 1
      then have "hd (EncodeRune r) = char_of r" by (simp add: EncodeRune_def)
      with h have "r mod 256 = 45" by (simp add: char_of_dash)
      with 1 have "r = 45" by simp
      with assms show False by (simp add: IsLetter_def IsDigit_def latin1_letter_def)
    next
      case 2
      then have "hd (EncodeRune r) = char_of (0xC0 + r div 64)" by (simp add: EncodeRune_def)
      with h have m: "(0xC0 + r div 64) mod 256 = 45" by (simp add: char_of_dash)
      from 2 have "r div 64 < 32" by (intro less_mult_imp_div_less) simp
      then have "0xC0 + r div 64 < 256" by simp
      with m show False by simp
    next
      case 3
      with h show False by (auto simp: EncodeRune_def)
    next
      case 4
      then have "hd (EncodeRune r) = char_of (0xE0 + r div 4096)" by (auto simp: EncodeRune_def)
      with h have m: "(0xE0 + r div 4096) mod 256 = 45" by (simp add: char_of_dash)
      from 4 have "r div 4096 < 16" by (intro less_mult_imp_div_less) simp
      then have "0xE0 + r div 4096 < 256" by simp
      with m show False by simp
    next
      case 5
      then have "hd (EncodeRune r) = char_of (0xF0 + r div 262144)" by (auto simp: EncodeRune_def)
      with h have m: "(0xF0 + r div 262144) mod 256 = 45" by (simp add: char_of_dash)
      from 5 have "r div 262144 < 8" by (intro less_mult_imp_div_less) simp
      then have "0xF0 + r div 262144 < 256" by simp
      with m show False by simp
    qed
  qed
  with ne show ?thesis by simp
qed

lemma slug_loop_hd:
  "b = [] \<or> hd b \<noteq> CHR ''-'' \<Longrightarrow>
   slug_loop U rs b pd = [] \<or> hd (slug_loop U rs b pd) \<noteq> CHR ''-''"
proof (induction rs arbitrary: b pd)
  case Nil
  then show ?case by simp
next
  case (Cons r rs)
  show ?case
  proof (cases "IsLetter U r \<or> IsDigit U r")
    case True
    from EncodeRune_first[OF True] Cons.prems have "b @ EncodeRune r = [] \<or> hd (b @ EncodeRune r) \<noteq> CHR ''-''"
      by (cases b) auto
    from Cons.IH[OF this] True show ?thesis by simp
  next
    case False
    show ?thesis
    proof (cases "\<not> pd \<and> 0 < length b")
      case True
      with Cons.prems have "b @ ''-'' = [] \<or> hd (b @ ''-'') \<noteq> CHR ''-''" by (cases b) auto
      from Cons.IH[OF this] True False show ?thesis by simp
    next
      case no: False
      from Cons.IH[OF Cons.prems] no False show ?thesis by auto
    qed
  qed
qed

lemma toSlug_length: "length (toSlug U s) \<le> 100"
proof -
  have "length (TrimRight_dash (take 100 xs)) \<le> 100" for xs
    using TrimRight_dash_length[of "take 100 xs"] by simp
  then show ?thesis by (auto simp: toSlug_def Let_def)
qed

lemma toSlug_ends:
  "toSlug U s = [] \<or> (hd (toSlug U s) \<noteq> CHR ''-'' \<and> last (toSlug U s) \<noteq> CHR ''-'')"
proof -
  define b where "b = slug_loop U (runes (ToLower U s)) [] False"
  define res where "res = TrimRight_dash b"
  have b: "b = [] \<or> hd b \<noteq> CHR ''-''" unfolding b_def by (rule slug_loop_hd) simp
  have res: "res = [] \<or> (hd res \<noteq> CHR ''-'' \<and> last res \<noteq> CHR ''-'')"
    using b TrimRight_dash_hd[of b] TrimRight_dash_last[of b] unfolding res_def
    by (cases "TrimRight_dash b = []") (auto simp: TrimRight_dash_def)
  have cut: "TrimRight_dash (take 100 res) = []
      \<or> (hd (TrimRight_dash (take 100 res)) \<noteq> CHR ''-'' \<and> last (TrimRight_dash (take 100 res)) \<noteq> CHR ''-'')"
  proof (cases "TrimRight_dash (take 100 res) = []")
    case True
    then show ?thesis by simp
  next
    case False
    then have "take 100 res \<noteq> []" by (auto simp: TrimRight_dash_def)
    then have "res \<noteq> []" "hd (take 100 res) = hd res" by (auto simp: hd_take)
    with res False TrimRight_dash_hd[OF False] TrimRight_dash_last[OF False] show ?thesis by simp
  qed
  show ?thesis
    using res cut by (auto simp: toSlug_def Let_def b_def[symmetric] res_def[symmetric])
qed

lemma runes_ascii: "is_ascii s \<Longrightarrow> runes s = map of_char s"
  by (induction s) (auto simp: is_ascii_def rune_at_ascii)

lemma ToLower_ascii_runes:
  assumes "is_ascii s"
  shows "list_all lower_ascii_rune (runes (ToLower U s))"
proof -
  have low: "(of_char (char_of (unicode_ToLower U (of_char c)) :: char) :: nat) < 0x80
      \<and> lower_ascii_rune (of_char (char_of (unicode_ToLower U (of_char c)) :: char))"
    if "(of_char c :: nat) < 0x80" for c
    using that by (auto simp: unicode_ToLower_def lower_ascii_rune_def of_char_of)
  have "is_ascii (ToLower U s)"
    using assms low by (auto simp: ToLower_def is_ascii_def list_all_iff)
  then have "runes (ToLower U s) = map of_char (ToLower U s)" by (rule runes_ascii)
  then show ?thesis
    using assms low by (auto simp: ToLower_def is_ascii_def list_all_iff)
qed

lemma lower_ascii_class:
  assumes "lower_ascii_rune r"
  shows "(IsLetter U r \<or> IsDigit U r) = lower_alnum (char_of r)" and "EncodeRune r = [char_of r]"
  using assms
  by (auto simp: lower_ascii_rune_def IsLetter_def IsDigit_def latin1_letter_def lower_alnum_def
      byte_in_def of_char_of EncodeRune_def)

lemma automaton_run_append:
  "automaton_run st (xs @ ys) =
     (case automaton_run st xs of None \<Rightarrow> None | Some m \<Rightarrow> automaton_run m ys)"
  by (induction xs arbitrary: st) auto

lemma lower_alnum_not_dash: "lower_alnum c \<Longrightarrow> c \<noteq> CHR ''-''"
  by (auto simp: lower_alnum_def byte_in_def)

lemma automaton_run_last:
  assumes "automaton_run st0 (ys @ [c]) = Some st"
  shows "(st \<longrightarrow> lower_alnum c) \<and> (\<not> st \<longrightarrow> c = CHR ''-'' \<and> automaton_run st0 ys = Some True)"
  using assms
  by (auto simp: automaton_run_append split: option.splits if_splits)

lemma TrimRight_dash_keep: "xs \<noteq> [] \<Longrightarrow> last xs \<noteq> CHR ''-'' \<Longrightarrow> TrimRight_dash xs = xs"
  by (cases xs rule: rev_cases) (auto simp: TrimRight_dash_def)

lemma TrimRight_dash_snoc: "TrimRight_dash (ys @ ''-'') = TrimRight_dash ys"
  by (simp add: TrimRight_dash_def)

lemma accepted_trim:
  assumes "xs \<noteq> []" and "automaton_run False xs = Some st"
  shows "slug_pattern (TrimRight_dash xs)"
proof -
  from assms(1) obtain ys c where xs: "xs = ys @ [c]" by (cases xs rule: rev_cases) auto
  note l = automaton_run_last[OF assms(2)[unfolded xs]]
  show ?thesis
  proof (cases st)
    case True
    with l have "last xs \<noteq> CHR ''-''" by (simp add: xs lower_alnum_not_dash)
    with assms True show ?thesis by (simp add: TrimRight_dash_keep slug_pattern_def)
  next
    case False
    with l have c: "c = CHR ''-''" and ys: "automaton_run False ys = Some True" by auto
    from ys have ne: "ys \<noteq> []" by auto
    then obtain zs d where zs: "ys = zs @ [d]" by (cases ys rule: rev_cases) auto
    from automaton_run_last[OF ys[unfolded zs]] have "last ys \<noteq> CHR ''-''"
      by (simp add: zs lower_alnum_not_dash)
    with ne ys c xs show ?thesis
      by (simp add: TrimRight_dash_snoc TrimRight_dash_keep slug_pattern_def)
  qed
qed

lemma automaton_run_take:
  "automaton_run st xs = Some m \<Longrightarrow> \<exists>m'. automaton_run st (take k xs) = Some m'"
  using automaton_run_append[of st "take k xs" "drop k xs"]
  by (auto split: option.splits)

lemma slug_loop_accepted:
  assumes "list_all lower_ascii_rune rs"
    and "(b = [] \<and> \<not> pd) \<or> (b \<noteq> [] \<and> automaton_run False b = Some (\<not> pd))"
  shows "slug_loop U rs b pd = [] \<or> (\<exists>st. automaton_run False (slug_loop U rs b pd) = Some st)"
  using assms
proof (induction rs arbitrary: b pd)
  case Nil
  then show ?case by auto
next
  case (Cons r rs)
  from Cons.prems(1) have r: "lower_ascii_rune r" and rs: "list_all lower_ascii_rune rs" by auto
  note cls = lower_ascii_class(1)[OF r, of U] lower_ascii_class(2)[OF r]
  show ?case
  proof (cases "IsLetter U r \<or> IsDigit U r")
    case True
    with cls have al: "lower_alnum (char_of r)" by simp
    have "b @ [char_of r] \<noteq> [] \<and> automaton_run False (b @ [char_of r]) = Some (\<not> False)"
      using Cons.prems(2) al by (auto simp: automaton_run_append)
    from Cons.IH[OF rs disjI2[OF this]] True cls(2) show ?thesis by simp
  next
    case False
    show ?thesis
    proof (cases "\<not> pd \<and> 0 < length b")
      case True
      with Cons.prems(2) have "b @ ''-'' \<noteq> [] \<and> automaton_run False (b @ ''-'') = Some (\<not> True)"
        by (auto simp: automaton_run_append lower_alnum_def byte_in_def)
      from Cons.IH[OF rs disjI2[OF this]] True False show ?thesis by simp
    next
      case stay: False
      from Cons.IH[OF rs Cons.prems(2)] stay False show ?thesis by auto
    qed
  qed
qed

lemma toSlug_ascii:
  assumes "is_ascii s"
  shows "toSlug U s = [] \<or> slug_pattern (toSlug U s)"
proof -
  define b where "b = slug_loop U (runes (ToLower U s)) [] False"
  define res where "res = TrimRight_dash b"
  have b: "b = [] \<or> (\<exists>st. automaton_run False b = Some st)"
    unfolding b_def by (rule slug_loop_accepted[OF ToLower_ascii_runes[OF assms]]) simp
  show ?thesis
  proof (cases "b = []")
    case True
    then show ?thesis by (simp add: toSlug_def b_def[symmetric] TrimRight_dash_def)
  next
    case False
    with b obtain st where "automaton_run False b = Some st" by blast
    from accepted_trim[OF False this] have res: "slug_pattern res" by (simp add: res_def)
    show ?thesis
    proof (cases "100 < length res")
      case short: False
      with res show ?thesis by (simp add: toSlug_def Let_def b_def[symmetric] res_def[symmetric])
    next
      case True
      then have ne: "take 100 res \<noteq> []" by auto
      from res automaton_run_take[of False res True 100]
      obtain m where "automaton_run False (take 100 res) = Some m"
        by (auto simp: slug_pattern_def)
      from accepted_trim[OF ne this] True show ?thesis
        by (simp add: toSlug_def Let_def b_def[symmetric] res_def[symmetric])
    qed
  qed
qed

lemma slug_loop_grows: "length b \<le> length (slug_loop U rs b pd)"
proof (induction rs arbitrary: b pd)
  case Nil
  then show ?case by simp
next
  case (Cons r rs)
  have "length b \<le> length (slug_loop U rs (b @ EncodeRune r) False)"
    using Cons[of "b @ EncodeRune r" False] by simp
  moreover have "length b \<le> length (slug_loop U rs (b @ ''-'') True)"
    using Cons[of "b @ ''-''" True] by simp
  ultimately show ?case using Cons[of b pd] by simp
qed

lemma slug_loop_nonempty:
  assumes "list_all lower_ascii_rune rs" and "\<exists>r\<in>set rs. lower_alnum (char_of r)"
  shows "slug_loop U rs b pd \<noteq> []"
  using assms
proof (induction rs arbitrary: b pd)
  case Nil
  then show ?case by simp
next
  case (Cons r rs)
  from Cons.prems(1) have r: "lower_ascii_rune r" and rs: "list_all lower_ascii_rune rs" by auto
  note cls = lower_ascii_class(1)[OF r, of U] lower_ascii_class(2)[OF r]
  show ?case
  proof (cases "lower_alnum (char_of r)")
    case True
    have "length (b @ [char_of r]) \<le> length (slug_loop U rs (b @ [char_of r]) False)"
      by (rule slug_loop_grows)
    then have "slug_loop U rs (b @ [char_of r]) False \<noteq> []" by auto
    with True cls show ?thesis by simp
  next
    case False
    with Cons.prems(2) have ex: "\<exists>r\<in>set rs. lower_alnum (char_of r)" by auto
    from False cls Cons.IH[OF rs ex] show ?thesis by simp
  qed
qed

lemma ToLower_ascii_alnum:
  assumes "is_ascii s" and "\<exists>c\<in>set s. ascii_alnum c"
  shows "\<exists>r\<in>set (runes (ToLower U s)). lower_alnum (char_of r)"
proof -
  from assms(2) obtain c where c: "c \<in> set s" "ascii_alnum c" by blast
  from assms(1) c(1) have small: "(of_char c :: nat) < 0x80" by (auto simp: is_ascii_def list_all_iff)
  let ?l = "char_of (unicode_ToLower U (of_char c)) :: char"
  have low: "(of_char d :: nat) < 0x80 \<Longrightarrow> (of_char (char_of (unicode_ToLower U (of_char d)) :: char) :: nat) < 0x80" for d
    by (auto simp: unicode_ToLower_def of_char_of)
  have "is_ascii (ToLower U s)"
    using assms(1) low by (auto simp: ToLower_def is_ascii_def list_all_iff)
  then have runes: "runes (ToLower U s) = map of_char (ToLower U s)" by (rule runes_ascii)
  from c(1) assms(1) have mem: "?l \<in> set (ToLower U s)" by (auto simp: ToLower_def)
  from c(2) small have "lower_alnum ?l"
    by (auto simp: ascii_alnum_def lower_alnum_def byte_in_def unicode_ToLower_def of_char_of)
  with mem show ?thesis unfolding runes by (auto intro!: bexI[of _ ?l])
qed

lemma TrimRight_dash_nonempty:
  assumes "xs \<noteq> []" and "hd xs \<noteq> CHR ''-''"
  shows "TrimRight_dash xs \<noteq> []"
proof
  assume "TrimRight_dash xs = []"
  then have "\<forall>c\<in>set xs. c = CHR ''-''"
    by (auto simp: TrimRight_dash_def dropWhile_eq_Nil_conv)
  with assms show False by (cases xs) auto
qed

lemma toSlug_nonempty:
  assumes "is_ascii s" and "\<exists>c\<in>set s. ascii_alnum c"
  shows "toSlug U s \<noteq> []"
proof -
  define b where "b = slug_loop U (runes (ToLower U s)) [] False"
  define res where "res = TrimRight_dash b"
  have ne: "b \<noteq> []"
    unfolding b_def
    by (rule slug_loop_nonempty[OF ToLower_ascii_runes[OF assms(1)] ToLower_ascii_alnum[OF assms]])
  have "b = [] \<or> hd b \<noteq> CHR ''-''" unfolding b_def by (rule slug_loop_hd) simp
  with ne have hd: "hd b \<noteq> CHR ''-''" by simp
  from TrimRight_dash_nonempty[OF ne hd] have res: "res \<noteq> []" by (simp add: res_def)
  from TrimRight_dash_hd[of b] res have rhd: "hd res \<noteq> CHR ''-''"
    using hd by (simp add: res_def)
  from res have "take 100 res \<noteq> []" by simp
  moreover from res have "hd (take 100 res) = hd res" by (simp add: hd_take)
  ultimately have "TrimRight_dash (take 100 res) \<noteq> []"
    using rhd by (intro TrimRight_dash_nonempty) simp_all
  with res show ?thesis
    by (simp add: toSlug_def Let_def b_def[symmetric] res_def[symmetric])
qed

lemma toSlug_ascii_pattern:
  assumes "is_ascii s" and "\<exists>c\<in>set s. ascii_alnum c"
  shows "slug_pattern (toSlug U s)"
  using toSlug_ascii[OF assms(1), of U] toSlug_nonempty[OF assms, of U] by blast


text \<open>
  C2, as the claim states it, fails.  Under \<^verbatim>\<open>## Tasks\<close> the task file has the bullet
  \<^verbatim>\<open>- Caf\<close> followed by the letter U+00E9, e with an acute accent, two bytes in UTF-8.
  \<open>toSlug\<close> keeps every rune that \<^verbatim>\<open>unicode.IsLetter\<close> accepts, so the slug ends with
  the two bytes of that letter and does not match the pattern.
\<close>

theorem slug_keeps_non_ascii_letter:
  "ParseFile latin1_tables [''PLAN.md'' \<mapsto> ''## Tasks\<newline>- Caf'' @ [CHR 0xC3, CHR 0xA9]] ''PLAN.md''
     = Inr [\<lparr>Title = ''Caf'' @ [CHR 0xC3, CHR 0xA9], Description = [],
             Slug = ''caf'' @ [CHR 0xC3, CHR 0xA9], Model = []\<rparr>]
   \<and> \<not> slug_pattern (''caf'' @ [CHR 0xC3, CHR 0xA9])"
proof -
  let ?content = "''## Tasks\<newline>- Caf'' @ [CHR 0xC3, CHR 0xA9]"
  let ?t = "\<lparr>Title = ''Caf'' @ [CHR 0xC3, CHR 0xA9], Description = [],
             Slug = ''caf'' @ [CHR 0xC3, CHR 0xA9], Model = []\<rparr>"
  have lines: "scanner_lines ?content = [''## Tasks'', ''- Caf'' @ [CHR 0xC3, CHR 0xA9]]"
    by code_simp
  have short: "\<not> too_long ?content"
    using too_long_content by fastforce
  have s1: "structured_step latin1_tables ([], None, False) ''## Tasks'' = ([], None, True)"
    by code_simp
  have s2: "structured_step latin1_tables ([], None, True) (''- Caf'' @ [CHR 0xC3, CHR 0xA9])
      = ([], Some ?t, True)"
    by code_simp
  have parse: "parseStructuredTasks latin1_tables ?content = Inr [?t]"
    by (simp only: parseStructuredTasks_def structured_tasks_def short lines foldl.simps s1 s2)
      (simp add: flush_def)
  have no: "\<not> slug_pattern (''caf'' @ [CHR 0xC3, CHR 0xA9])"
    by code_simp
  from parse no show ?thesis
    by (simp add: ParseFile_def)
qed

text \<open>
  C2, amended.  Every task that \<open>ParseFile\<close> returns, whichever of the three strategies
  found it, has a slug of at most 100 bytes.  When its title is ASCII and has at least
  one letter or digit, the slug matches \<^verbatim>\<open>^[a-z0-9]+(-[a-z0-9]+)*$\<close>: it is not empty, it
  is lowercase ASCII, and it neither starts nor ends with \<^verbatim>\<open>-\<close>.
\<close>

theorem parsed_slug_shape:
  "ParseFile U fs path = Inr tasks \<and> task \<in> set tasks \<longrightarrow>
     length (Slug task) \<le> 100
     \<and> (is_ascii (Title task) \<and> (\<exists>c\<in>set (Title task). ascii_alnum c) \<longrightarrow>
          slug_pattern (Slug task))"
proof (intro impI, elim conjE)
  assume "ParseFile U fs path = Inr tasks" and "task \<in> set tasks"
  then have slug: "Slug task = toSlug U (Title task)" by (rule ParseFile_slug)
  show "length (Slug task) \<le> 100
     \<and> (is_ascii (Title task) \<and> (\<exists>c\<in>set (Title task). ascii_alnum c) \<longrightarrow>
          slug_pattern (Slug task))"
    unfolding slug
    using toSlug_length[of U "Title task"] toSlug_ascii_pattern[of "Title task" U]
    by blast
qed

theorem parsed_slug_shape_witness:
  "ParseFile latin1_tables
     [''PLAN.md'' \<mapsto> ''# Plan\<newline>## Tasks\<newline>- Add auth [model:claude-opus-4-6]\<newline>- Fix navbar [title:navbar]\<newline>'']
     ''PLAN.md''
     = Inr [\<lparr>Title = ''Add auth'', Description = [], Slug = ''add-auth'', Model = ''claude-opus-4-6''\<rparr>,
            \<lparr>Title = ''navbar'', Description = [], Slug = ''navbar'', Model = []\<rparr>]
   \<and> is_ascii ''Add auth''
   \<and> ascii_alnum CHR ''A''
   \<and> length ''add-auth'' \<le> 100
   \<and> slug_pattern ''add-auth''"
proof -
  let ?content = "''# Plan\<newline>## Tasks\<newline>- Add auth [model:claude-opus-4-6]\<newline>- Fix navbar [title:navbar]\<newline>''"
  let ?t1 = "\<lparr>Title = ''Add auth'', Description = [], Slug = ''add-auth'', Model = ''claude-opus-4-6''\<rparr>"
  let ?t2 = "\<lparr>Title = ''navbar'', Description = [], Slug = ''navbar'', Model = []\<rparr>"
  have lines: "scanner_lines ?content
      = [''# Plan'', ''## Tasks'', ''- Add auth [model:claude-opus-4-6]'', ''- Fix navbar [title:navbar]'']"
    by code_simp
  have short: "\<not> too_long ?content"
    using too_long_content by fastforce
  have s0: "structured_step latin1_tables ([], None, False) ''# Plan'' = ([], None, False)"
    by code_simp
  have s1: "structured_step latin1_tables ([], None, False) ''## Tasks'' = ([], None, True)"
    by code_simp
  have s2: "structured_step latin1_tables ([], None, True) ''- Add auth [model:claude-opus-4-6]''
      = ([], Some ?t1, True)"
    by code_simp
  have s3: "structured_step latin1_tables ([], Some ?t1, True) ''- Fix navbar [title:navbar]''
      = ([?t1], Some ?t2, True)"
    by code_simp
  have "parseStructuredTasks latin1_tables ?content = Inr [?t1, ?t2]"
    by (simp only: parseStructuredTasks_def structured_tasks_def short lines foldl.simps s0 s1 s2 s3)
      (simp add: flush_def)
  then have parse: "ParseFile latin1_tables [''PLAN.md'' \<mapsto> ?content] ''PLAN.md'' = Inr [?t1, ?t2]"
    by (simp add: ParseFile_def)
  have ascii: "is_ascii (Title ?t1)" by (simp add: is_ascii_def)
  have letter: "ascii_alnum CHR ''A''" by (simp add: ascii_alnum_def byte_in_def)
  then have alnum: "\<exists>c\<in>set (Title ?t1). ascii_alnum c" by simp
  have mem: "?t1 \<in> set [?t1, ?t2]" by simp
  have shape: "length (Slug ?t1) \<le> 100 \<and> slug_pattern (Slug ?t1)"
    using parsed_slug_shape[of latin1_tables "[''PLAN.md'' \<mapsto> ?content]" "''PLAN.md''" "[?t1, ?t2]" ?t1]
      parse mem ascii alnum
    by blast
  then have len: "length ''add-auth'' \<le> 100" and pattern: "slug_pattern ''add-auth''" by simp_all
  from ascii have ascii: "is_ascii ''Add auth''" by simp
  from parse ascii letter len pattern show ?thesis by blast
qed

section \<open>The cut of the worker output\<close>

lemma runes_ascii_append: "is_ascii xs \<Longrightarrow> runes (xs @ ys) = map of_char xs @ runes ys"
  by (induction xs) (auto simp: is_ascii_def rune_at_ascii)

text \<open>
  C7, as the claim states it, fails.  The worker output is 3999 times the letter
  \<^verbatim>\<open>a\<close> and then the letter U+00E9, which takes two bytes in UTF-8: 4000 characters in
  4001 bytes.  The output does not exceed 4000 characters, yet the blob does not embed
  it unchanged: \<open>truncate\<close> measures and cuts the bytes, so it keeps the first byte of
  the last letter, drops the second and appends the marker.
\<close>

theorem memory_blob_cuts_bytes:
  "length (runes (replicate 3999 CHR ''a'' @ [CHR 0xC3, CHR 0xA9])) = 4000
   \<and> mem_blob \<lparr>Iteration = 1, Task = ''Add auth'',
        WorkerOutput = replicate 3999 CHR ''a'' @ [CHR 0xC3, CHR 0xA9],
        ReviewerNotes = [], Status = ''done''\<rparr>
       = ''# Worker Memory\<newline>\<newline>## Iteration 1 Output\<newline>\<newline>''
         @ replicate 3999 CHR ''a'' @ [CHR 0xC3] @ ''\<newline>...[truncated]'' @ ''\<newline>''
   \<and> mem_blob \<lparr>Iteration = 1, Task = ''Add auth'',
        WorkerOutput = replicate 3999 CHR ''a'' @ [CHR 0xC3, CHR 0xA9],
        ReviewerNotes = [], Status = ''done''\<rparr>
       \<noteq> ''# Worker Memory\<newline>\<newline>## Iteration 1 Output\<newline>\<newline>''
         @ replicate 3999 CHR ''a'' @ [CHR 0xC3, CHR 0xA9] @ ''\<newline>''"
proof -
  let ?out = "replicate 3999 CHR ''a'' @ [CHR 0xC3, CHR 0xA9]"
  have ascii: "is_ascii (replicate 3999 CHR ''a'')"
    by (simp add: is_ascii_def list_all_iff)
  have letter: "runes [CHR 0xC3, CHR 0xA9] = [0xE9]"
    by code_simp
  have chars: "length (runes ?out) = 4000"
    by (simp only: runes_ascii_append[OF ascii] letter) simp
  have one: "itoa 1 = ''1''"
    by (simp add: itoa_def decimal.simps digit_def)
  have cut: "truncate_str ?out 4000 = replicate 3999 CHR ''a'' @ [CHR 0xC3] @ ''\<newline>...[truncated]''"
    by (simp add: truncate_str_def)
  have blob: "mem_blob \<lparr>Iteration = 1, Task = ''Add auth'', WorkerOutput = ?out,
        ReviewerNotes = [], Status = ''done''\<rparr>
       = ''# Worker Memory\<newline>\<newline>## Iteration 1 Output\<newline>\<newline>''
         @ replicate 3999 CHR ''a'' @ [CHR 0xC3] @ ''\<newline>...[truncated]'' @ ''\<newline>''"
    by (simp add: mem_blob_def one cut)
  have differs: "''# Worker Memory\<newline>\<newline>## Iteration 1 Output\<newline>\<newline>''
         @ replicate 3999 CHR ''a'' @ [CHR 0xC3] @ ''\<newline>...[truncated]'' @ ''\<newline>''
       \<noteq> ''# Worker Memory\<newline>\<newline>## Iteration 1 Output\<newline>\<newline>''
         @ replicate 3999 CHR ''a'' @ [CHR 0xC3, CHR 0xA9] @ ''\<newline>''"
    by simp
  from chars blob differs show ?thesis by (simp only:) simp
qed

text \<open>
  C7, amended.  The blob that \<open>Write\<close> stores as \<^verbatim>\<open>MEMORY.md\<close> embeds the worker output
  unchanged when it has at most 4000 bytes, and otherwise its first 4000 bytes followed
  by a newline and the marker \<^verbatim>\<open>...[truncated]\<close>, three ASCII dots before the bracket.
\<close>

theorem memory_blob_truncation:
  "memory_files data fileMemory = Some (mem_blob data)
   \<and> mem_blob data =
       ''# Worker Memory\<newline>\<newline>## Iteration '' @ itoa (Iteration data) @ '' Output\<newline>\<newline>''
       @ (if 4000 < length (WorkerOutput data)
          then take 4000 (WorkerOutput data) @ ''\<newline>...[truncated]''
          else WorkerOutput data)
       @ ''\<newline>''
   \<and> length (truncate_str (WorkerOutput data) 4000) \<le> 4000 + length ''\<newline>...[truncated]''"
  by (simp add: memory_files_lookup mem_blob_def truncate_str_def)

section \<open>Parallel dispatch: the concurrency ceiling\<close>

lemma in_flight_le_tokens:
  "length (filter (\<lambda>p. p = InLoop) ps) \<le> sum_list (map holds_token ps)"
  by (induction ps) (auto simp: holds_token_def)

lemma tokens_move:
  assumes "i < length ps"
  shows "sum_list (map holds_token (ps[i := p])) + holds_token (ps ! i)
    = sum_list (map holds_token ps) + holds_token p"
  using assms
proof (induction ps arbitrary: i)
  case Nil
  then show ?case by simp
next
  case (Cons q qs)
  then show ?case by (cases i) (auto simp: algebra_simps)
qed

lemma worker_step_ok:
  assumes "dispatch_ok n d"
  shows "dispatch_ok n (worker_step d i)"
proof (cases "i < length (goroutines d)")
  case False
  with assms show ?thesis by (simp add: worker_step_def)
next
  case True
  note tokens_move[OF True, simp]
  show ?thesis
  proof (cases "sem d")
    case None
    with assms True show ?thesis
      by (auto simp: worker_step_def dispatch_ok_def move_def split: place.splits)
  next
    case (Some capacity)
    have tok: "\<And>p. sum_list (map holds_token ((goroutines d)[i := p])) + holds_token (goroutines d ! i)
        = sum_list (map holds_token (goroutines d)) + holds_token p"
      by (rule tokens_move[OF True])
    from assms Some have b: "buffered d = sum_list (map holds_token (goroutines d))"
      and c: "buffered d \<le> capacity" and l: "length (goroutines d) + unstarted d = n"
      by (auto simp: dispatch_ok_def)
    show ?thesis
    proof (cases "goroutines d ! i")
      case AtAcquire
      with tok[of AtStart] b c l Some True show ?thesis
        by (auto simp: worker_step_def dispatch_ok_def move_def holds_token_def)
    next
      case AtStart
      with tok[of InLoop] b c l Some True show ?thesis
        by (auto simp: worker_step_def dispatch_ok_def move_def holds_token_def)
    next
      case InLoop
      with tok[of AtReport] b c l Some True show ?thesis
        by (auto simp: worker_step_def dispatch_ok_def move_def holds_token_def)
    next
      case AtReport
      with tok[of Returned] b c l Some True show ?thesis
        by (auto simp: worker_step_def dispatch_ok_def move_def holds_token_def)
    next
      case Returned
      with assms True show ?thesis by (simp add: worker_step_def)
    qed
  qed
qed

lemma main_step_ok:
  assumes "dispatch_ok n d"
  shows "dispatch_ok n (main_step d)"
  using assms
  by (auto simp: main_step_def dispatch_ok_def holds_token_def split: option.splits)

lemma dispatch_step_ok:
  "dispatch_ok n d \<Longrightarrow> dispatch_ok n (dispatch_step d e)"
  by (cases e) (simp_all add: main_step_ok worker_step_ok)

lemma dispatch_steps_ok:
  "dispatch_ok n d \<Longrightarrow> dispatch_ok n (foldl dispatch_step d schedule)"
  by (induction schedule arbitrary: d) (simp_all add: dispatch_step_ok)

lemma dispatch_start_ok:
  "dispatch_ok (length tasks) (dispatch_start cfg tasks)"
  by (simp add: dispatch_ok_def dispatch_start_def split: option.splits)

lemma dispatch_run_ok:
  "dispatch_ok (length tasks) (dispatch_run cfg tasks schedule)"
  unfolding dispatch_run_def by (rule dispatch_steps_ok[OF dispatch_start_ok])

lemma worker_step_sem: "sem (worker_step d i) = sem d"
  by (simp add: worker_step_def move_def split: place.splits option.splits)

lemma dispatch_step_sem: "sem (dispatch_step d e) = sem d"
  by (cases e) (simp_all add: worker_step_sem main_step_def)

lemma dispatch_steps_sem: "sem (foldl dispatch_step d schedule) = sem d"
  by (induction schedule arbitrary: d) (simp_all add: dispatch_step_sem)

lemma dispatch_run_sem: "sem (dispatch_run cfg tasks schedule) = make_sem cfg tasks"
  by (simp add: dispatch_run_def dispatch_steps_sem dispatch_start_def)

lemma in_flight_bound:
  assumes "1 \<le> MaxWorktrees cfg"
  shows "in_flight (dispatch_run cfg tasks schedule) \<le> nat (MaxWorktrees cfg)"
proof -
  let ?d = "dispatch_run cfg tasks schedule"
  have ok: "dispatch_ok (length tasks) ?d" by (rule dispatch_run_ok)
  show ?thesis
  proof (cases "make_sem cfg tasks")
    case None
    with assms have "int (length tasks) \<le> MaxWorktrees cfg"
      by (simp add: make_sem_def split: if_splits)
    moreover have "in_flight ?d \<le> length (goroutines ?d)"
      by (simp add: in_flight_def)
    moreover from ok have "length (goroutines ?d) \<le> length tasks"
      by (simp add: dispatch_ok_def)
    ultimately show ?thesis by linarith
  next
    case (Some capacity)
    then have cap: "capacity = nat (MaxWorktrees cfg)"
      by (simp add: make_sem_def split: if_splits)
    from Some have "sem ?d = Some capacity" by (simp add: dispatch_run_sem)
    with ok have "sum_list (map holds_token (goroutines ?d)) \<le> capacity"
      by (simp add: dispatch_ok_def)
    with in_flight_le_tokens[of "goroutines ?d"] cap show ?thesis
      by (simp add: in_flight_def)
  qed
qed

lemma launch_all:
  "foldl dispatch_step d (replicate n Coordinator)
     = d\<lparr>goroutines := goroutines d @ replicate (min n (unstarted d)) AtAcquire,
         unstarted := unstarted d - n\<rparr>"
proof (induction n arbitrary: d)
  case 0
  then show ?case by simp
next
  case (Suc n)
  show ?case
  proof (cases "unstarted d")
    case 0
    then show ?thesis using Suc[of d] by (simp add: main_step_def)
  next
    case (Suc k)
    then show ?thesis using Suc.IH[of "main_step d"]
      by (simp add: main_step_def min_def replicate_app_Cons_same)
  qed
qed


lemma replicate_advance:
  assumes "k < n"
  shows "(replicate k q @ replicate (n - k) p)[k := q] = replicate (Suc k) q @ replicate (n - Suc k) p"
proof -
  from assms have "replicate (n - k) p = p # replicate (n - Suc k) p"
    by (metis Suc_diff_Suc replicate_Suc)
  then show ?thesis
    by (simp add: list_update_append replicate_append_same)
qed

lemma worker_step_free:
  assumes "sem d = None" and "i < length (goroutines d)" and "goroutines d ! i = p"
    and "(p, q) = (AtAcquire, AtStart) \<or> (p, q) = (AtStart, InLoop)"
  shows "worker_step d i = move d i q"
  using assms by (auto simp: worker_step_def)

lemma sweep:
  assumes "sem d = None" and "goroutines d = replicate n p"
    and "(p, q) = (AtAcquire, AtStart) \<or> (p, q) = (AtStart, InLoop)"
    and "k \<le> n"
  shows "foldl dispatch_step d (map Worker [0..<k])
    = d\<lparr>goroutines := replicate k q @ replicate (n - k) p\<rparr>"
  using assms(4)
proof (induction k)
  case 0
  with assms(2) show ?case by simp
next
  case (Suc k)
  let ?mid = "d\<lparr>goroutines := replicate k q @ replicate (n - k) p\<rparr>"
  from Suc have before: "foldl dispatch_step d (map Worker [0..<k]) = ?mid" and k: "k < n"
    by simp_all
  from k have at: "goroutines ?mid ! k = p"
    by (simp add: nth_append)
  from k have len: "k < length (goroutines ?mid)" by simp
  have "worker_step ?mid k = move ?mid k q"
    by (rule worker_step_free[OF _ len at assms(3)]) (simp add: assms(1))
  also have "\<dots> = d\<lparr>goroutines := replicate (Suc k) q @ replicate (n - Suc k) p\<rparr>"
    unfolding move_def using replicate_advance[OF k, of q p] by simp
  finally show ?case using before by simp
qed

lemma all_at_once_run:
  assumes "make_sem cfg tasks = None"
  shows "dispatch_run cfg tasks (all_at_once (length tasks))
    = \<lparr>sem = None, buffered = 0, goroutines = replicate (length tasks) InLoop, unstarted = 0\<rparr>"
proof -
  let ?n = "length tasks"
  let ?at = "\<lambda>p. \<lparr>sem = None, buffered = 0, goroutines = replicate ?n p, unstarted = 0::nat\<rparr>"
  have launched: "foldl dispatch_step (dispatch_start cfg tasks) (replicate ?n Coordinator) = ?at AtAcquire"
    by (simp add: launch_all dispatch_start_def assms)
  have first: "foldl dispatch_step (?at AtAcquire) (map Worker [0..<?n]) = ?at AtStart"
    using sweep[of "?at AtAcquire" ?n AtAcquire AtStart ?n] by simp
  have second: "foldl dispatch_step (?at AtStart) (map Worker [0..<?n]) = ?at InLoop"
    using sweep[of "?at AtStart" ?n AtStart InLoop ?n] by simp
  show ?thesis
    by (simp only: dispatch_run_def all_at_once_def foldl_append launched first second)
qed

lemma make_sem_bypass:
  "make_sem cfg tasks = None \<longleftrightarrow> MaxWorktrees cfg \<le> 0 \<or> int (length tasks) \<le> MaxWorktrees cfg"
  by (auto simp: make_sem_def)

text \<open>
  C10.  In parallel dispatch with \<^verbatim>\<open>MaxWorktrees\<close> \<open>= N \<ge> 1\<close>, whatever the interleaving of
  the goroutines, the number of them inside \<^verbatim>\<open>runRalphLoop\<close> never exceeds \<open>N\<close>.  When
  \<^verbatim>\<open>MaxWorktrees\<close> is zero, or at least the number of tasks, no channel is made, and there
  is an interleaving in which the loops of all tasks are in flight together.
\<close>

theorem dispatch_concurrency_bound:
  "(1 \<le> MaxWorktrees cfg \<longrightarrow>
      in_flight (dispatch_run cfg tasks schedule) \<le> nat (MaxWorktrees cfg))
   \<and> (MaxWorktrees cfg = 0 \<or> int (length tasks) \<le> MaxWorktrees cfg \<longrightarrow>
        sem (dispatch_run cfg tasks schedule) = None
        \<and> in_flight (dispatch_run cfg tasks (all_at_once (length tasks))) = length tasks)"
proof (intro conjI impI)
  assume "1 \<le> MaxWorktrees cfg"
  then show "in_flight (dispatch_run cfg tasks schedule) \<le> nat (MaxWorktrees cfg)"
    by (rule in_flight_bound)
next
  assume "MaxWorktrees cfg = 0 \<or> int (length tasks) \<le> MaxWorktrees cfg"
  then have none: "make_sem cfg tasks = None"
    by (auto simp: make_sem_bypass)
  then show "sem (dispatch_run cfg tasks schedule) = None"
    by (simp add: dispatch_run_sem)
  from none show "in_flight (dispatch_run cfg tasks (all_at_once (length tasks))) = length tasks"
    by (simp add: all_at_once_run in_flight_def)
qed


theorem dispatch_concurrency_bound_witness:
  "1 \<le> MaxWorktrees (Default\<lparr>MaxWorktrees := 2\<rparr>)
   \<and> goroutines (dispatch_run (Default\<lparr>MaxWorktrees := 2\<rparr>) three_tasks (all_at_once 3))
       = [InLoop, InLoop, AtAcquire]
   \<and> in_flight (dispatch_run (Default\<lparr>MaxWorktrees := 2\<rparr>) three_tasks (all_at_once 3))
       \<le> nat (MaxWorktrees (Default\<lparr>MaxWorktrees := 2\<rparr>))
   \<and> MaxWorktrees Default = 0
   \<and> sem (dispatch_run Default three_tasks (all_at_once 3)) = None
   \<and> in_flight (dispatch_run Default three_tasks (all_at_once (length three_tasks))) = length three_tasks
   \<and> length three_tasks = 3"
proof -
  let ?two = "Default\<lparr>MaxWorktrees := 2\<rparr>"
  have limited: "1 \<le> MaxWorktrees ?two" by simp
  have zero: "MaxWorktrees Default = 0" by (simp add: Default_def)
  have blocked: "goroutines (dispatch_run ?two three_tasks (all_at_once 3)) = [InLoop, InLoop, AtAcquire]"
    by code_simp
  have three: "length three_tasks = 3" by (simp add: three_tasks_def)
  from dispatch_concurrency_bound[of ?two three_tasks "all_at_once 3"] limited
  have bound: "in_flight (dispatch_run ?two three_tasks (all_at_once 3)) \<le> nat (MaxWorktrees ?two)"
    by blast
  from dispatch_concurrency_bound[of Default three_tasks "all_at_once 3"] zero
  have free: "sem (dispatch_run Default three_tasks (all_at_once 3)) = None
      \<and> in_flight (dispatch_run Default three_tasks (all_at_once (length three_tasks))) = length three_tasks"
    by blast
  from limited blocked bound zero free three show ?thesis by blast
qed


end
